theory Spec2Isabelle
  imports Main "HOL-Library.AList"
begin

section \<open>Runtime values\<close>

text \<open>
  The values the core handles at run time: what \<open>JSON.parse\<close> can produce, and
  \<open>undefined\<close>. Numbers are the integers (the doubles that are integers below
  \<open>2^53\<close> behave exactly so under \<open>-\<close>, comparison with zero and \<open>String\<close>);
  fractions, \<open>NaN\<close> and the infinities are outside the model. An object is the list of
  its own properties in insertion order, the first binding of a key being the one read.
\<close>

datatype jsval =
    JUndefined
  | JNull
  | JBool bool
  | JNum int
  | JStr string
  | JArr "jsval list"
  | JObj "(string \<times> jsval) list"

datatype js_error = TypeError | JsError string

section \<open>JavaScript operators on runtime values\<close>

text \<open>Truthiness: what \<open>!v\<close>, \<open>a || b\<close> and \<open>if (v)\<close> test.\<close>

fun truthy :: "jsval \<Rightarrow> bool" where
  "truthy JUndefined = False"
| "truthy JNull = False"
| "truthy (JBool b) = b"
| "truthy (JNum n) = (n \<noteq> 0)"
| "truthy (JStr s) = (s \<noteq> [])"
| "truthy (JArr xs) = True"
| "truthy (JObj kvs) = True"

definition jsOr :: "jsval \<Rightarrow> jsval \<Rightarrow> jsval" where
  "jsOr a b = (if truthy a then a else b)"

text \<open>\<open>v == null\<close> holds of \<open>null\<close> and \<open>undefined\<close> only; \<open>a ?? b\<close> tests the same.\<close>

definition isNullish :: "jsval \<Rightarrow> bool" where
  "isNullish v = (v = JUndefined \<or> v = JNull)"

definition jsCoalesce :: "jsval \<Rightarrow> jsval \<Rightarrow> jsval" where
  "jsCoalesce a b = (if isNullish a then b else a)"

text \<open>\<open>typeof v === 'object'\<close> holds of objects, of arrays and of \<open>null\<close>.\<close>

fun typeofObject :: "jsval \<Rightarrow> bool" where
  "typeofObject JNull = True"
| "typeofObject (JArr xs) = True"
| "typeofObject (JObj kvs) = True"
| "typeofObject _ = False"

text \<open>Decimal digits of a number, as \<open>String\<close> prints an integer.\<close>

fun showNat :: "nat \<Rightarrow> string" where
  "showNat n = (if n < 10 then [''0123456789'' ! n]
                else showNat (n div 10) @ [''0123456789'' ! (n mod 10)])"

declare showNat.simps [simp del]

definition showInt :: "int \<Rightarrow> string" where
  "showInt i = (if i < 0 then CHR ''-'' # showNat (nat (- i)) else showNat (nat i))"

text \<open>An array index as a property name: the decimal digits of a number, without leading zero.\<close>

definition arrayIndex :: "string \<Rightarrow> nat \<Rightarrow> bool" where
  "arrayIndex k n = (showNat n = k)"

text \<open>
  Reading a property \<open>v[k]\<close> of an object or array (the callers test
  \<open>typeof v === 'object'\<close> and \<open>v\<close> not null before). An object yields its own property;
  an array yields the element at an index and its \<open>length\<close>; every other name yields
  \<open>undefined\<close>. The members that objects inherit from their prototype
  (\<open>constructor\<close>, \<open>toString\<close>, ...) are functions, which this data model does not
  hold: reading one of those names is outside the model.
\<close>

fun getProp :: "jsval \<Rightarrow> string \<Rightarrow> jsval" where
  "getProp (JObj kvs) k = (case map_of kvs k of None \<Rightarrow> JUndefined | Some v \<Rightarrow> v)"
| "getProp (JArr xs) k =
     (if k = ''length'' then JNum (int (length xs))
      else case filter (arrayIndex k) [0 ..< length xs] of
             [] \<Rightarrow> JUndefined
           | n # _ \<Rightarrow> xs ! n)"
| "getProp _ k = JUndefined"

text \<open>
  \<open>String(v)\<close>. On an object it converts to a primitive by calling \<open>toString\<close>, then
  \<open>valueOf\<close>: an own property of either name holds data, which cannot be called, and the
  inherited \<open>valueOf\<close> returns the object itself, so an object with an own \<open>toString\<close>
  property raises a TypeError and any other object prints as \<open>[object Object]\<close>. An
  array joins the strings of its elements with commas, \<open>null\<close> and \<open>undefined\<close>
  printing as the empty string there.
\<close>

fun jsString :: "jsval \<Rightarrow> js_error + string"
  and joinElements :: "jsval list \<Rightarrow> js_error + string" where
  "jsString JUndefined = Inr ''undefined''"
| "jsString JNull = Inr ''null''"
| "jsString (JBool b) = Inr (if b then ''true'' else ''false'')"
| "jsString (JNum n) = Inr (showInt n)"
| "jsString (JStr s) = Inr s"
| "jsString (JArr xs) = joinElements xs"
| "jsString (JObj kvs) =
     (if ''toString'' \<in> fst ` set kvs then Inl TypeError else Inr ''[object Object]'')"
| "joinElements [] = Inr []"
| "joinElements (x # xs) =
     (case (if isNullish x then Inr [] else jsString x) of
        Inl e \<Rightarrow> Inl e
      | Inr s \<Rightarrow>
          (if xs = [] then Inr s
           else case joinElements xs of Inl e \<Rightarrow> Inl e | Inr r \<Rightarrow> Inr (s @ '','' @ r)))"

text \<open>
  Values that \<open>String\<close> converts without raising: primitives, objects without an own
  \<open>toString\<close> property, and arrays of such values.
\<close>

fun convertible :: "jsval \<Rightarrow> bool" where
  "convertible (JObj kvs) = (''toString'' \<notin> fst ` set kvs)"
| "convertible (JArr xs) = list_all convertible xs"
| "convertible _ = True"

section \<open>Default event normalizer (unnamed/part_003, class DefaultNormalizer)\<close>

record NormalizedEvent =
  ev_type :: string
  ev_sessionId :: string
  ev_payload :: jsval
  ev_sequence :: "int option"
  ev_timestamp :: string
  ev_raw :: jsval

text \<open>
  \<open>normalize\<close>; \<open>now\<close> is what \<open>new Date().toISOString()\<close> returns at the call.
  The result is \<open>Inl\<close> of the exception when a \<open>String(...)\<close> raises, \<open>Inr None\<close>
  when it returns \<open>null\<close>, and \<open>Inr (Some event)\<close> otherwise. The properties are computed in the
  order of the object literal.
\<close>

definition normalize :: "string \<Rightarrow> jsval \<Rightarrow> js_error + NormalizedEvent option" where
  "normalize now rawEvent =
     (if \<not> truthy rawEvent \<or> \<not> typeofObject rawEvent then Inr None
      else
        let event = rawEvent in
        case jsString (jsOr (getProp event ''type'') (JStr ''message'')) of
          Inl e \<Rightarrow> Inl e
        | Inr ty \<Rightarrow>
        (case jsString (jsOr (jsOr (getProp event ''sessionId'') (getProp event ''session_id''))
                         (JStr [])) of
          Inl e \<Rightarrow> Inl e
        | Inr sid \<Rightarrow>
        (case jsString (jsOr (jsOr (getProp event ''timestamp'') (getProp event ''createdAt''))
                         (JStr now)) of
          Inl e \<Rightarrow> Inl e
        | Inr ts \<Rightarrow>
            Inr (Some
              \<lparr>ev_type = ty,
               ev_sessionId = sid,
               ev_payload =
                 jsCoalesce (jsCoalesce (getProp event ''payload'') (getProp event ''data'')) event,
               ev_sequence = (case getProp event ''sequence'' of JNum n \<Rightarrow> Some n | _ \<Rightarrow> None),
               ev_timestamp = ts,
               ev_raw = rawEvent\<rparr>))))"

text \<open>
  The three values that \<open>normalize\<close> hands to \<open>String\<close>:
  \<open>event.type || 'message'\<close>, \<open>event.sessionId || event.session_id || ''\<close> and
  \<open>event.timestamp || event.createdAt || new Date().toISOString()\<close>.
\<close>

definition typeSource :: "jsval \<Rightarrow> jsval" where
  "typeSource event = jsOr (getProp event ''type'') (JStr ''message'')"

definition sessionIdSource :: "jsval \<Rightarrow> jsval" where
  "sessionIdSource event =
     jsOr (jsOr (getProp event ''sessionId'') (getProp event ''session_id'')) (JStr [])"

definition timestampSource :: "string \<Rightarrow> jsval \<Rightarrow> jsval" where
  "timestampSource now event =
     jsOr (jsOr (getProp event ''timestamp'') (getProp event ''createdAt'')) (JStr now)"

text \<open>Sample data: a raw event with a snake-case session id, data and a sequence number.\<close>

definition demoRawEvent :: jsval where
  "demoRawEvent = JObj [(''session_id'', JNum 42), (''data'', JStr ''hello''), (''sequence'', JNum 7)]"

text \<open>
  Two more raw events: one whose \<open>type\<close> cannot be converted to a string, and one whose
  \<open>session_id\<close> cannot but stands behind a \<open>sessionId\<close> that is read first.
\<close>

definition unprintableRawEvent :: jsval where
  "unprintableRawEvent = JObj [(''type'', JObj [(''toString'', JNull)])]"

definition shadowedRawEvent :: jsval where
  "shadowedRawEvent =
     JObj [(''sessionId'', JStr ''s''), (''session_id'', JObj [(''toString'', JNull)])]"

section \<open>Streaming state machine (packages/core/src/state/streaming-state.ts)\<close>

record ContentBlock =
  blockType :: string
  content :: "string option"
  language :: "string option"
  url :: "string option"
  alt :: "string option"
  metadata :: "(string \<times> jsval) list option"

record StreamingState =
  isStreaming :: bool
  partialContent :: "ContentBlock list option"
  sessionId :: "string option"

definition INITIAL_STATE :: StreamingState where
  "INITIAL_STATE = \<lparr>isStreaming = False, partialContent = None, sessionId = None\<rparr>"

text \<open>
  The machine: its state, its listeners (a \<open>Set\<close>, kept in insertion order) and, as
  the trace of its effects, every call of a listener with the snapshot it received.
\<close>

record StreamingStateMachine =
  state :: StreamingState
  listeners :: "nat list"
  delivered :: "(nat \<times> StreamingState) list"

definition createStreamingStateMachine :: StreamingStateMachine where
  "createStreamingStateMachine = \<lparr>state = INITIAL_STATE, listeners = [], delivered = []\<rparr>"

fun blocksLoop :: "ContentBlock list \<Rightarrow> ContentBlock list \<Rightarrow> bool" where
  "blocksLoop (x # xs) (y # ys) =
     (if blockType x \<noteq> blockType y \<or> content x \<noteq> content y then False
      else blocksLoop xs ys)"
| "blocksLoop _ _ = True"

text \<open>
  \<open>a === b\<close> on two arrays is identity; two identical arrays also pass the loop, so the
  model keeps only the \<open>null\<close> case of that test.
\<close>

fun contentBlocksEqual :: "ContentBlock list option \<Rightarrow> ContentBlock list option \<Rightarrow> bool" where
  "contentBlocksEqual None None = True"
| "contentBlocksEqual None (Some b) = False"
| "contentBlocksEqual (Some a) None = False"
| "contentBlocksEqual (Some a) (Some b) =
     (if length a \<noteq> length b then False else blocksLoop a b)"

definition getState :: "StreamingStateMachine \<Rightarrow> StreamingState" where
  "getState m = state m"

definition notifyStreamingListeners :: "StreamingStateMachine \<Rightarrow> StreamingStateMachine" where
  "notifyStreamingListeners m =
     m\<lparr>delivered := delivered m @ map (\<lambda>l. (l, getState m)) (listeners m)\<rparr>"

definition setState :: "StreamingState \<Rightarrow> StreamingStateMachine \<Rightarrow> StreamingStateMachine" where
  "setState newState m =
     (let hasChanged =
            (isStreaming (state m) \<noteq> isStreaming newState
             \<or> sessionId (state m) \<noteq> sessionId newState
             \<or> \<not> contentBlocksEqual (partialContent (state m)) (partialContent newState))
      in if hasChanged then notifyStreamingListeners (m\<lparr>state := newState\<rparr>) else m)"

definition onPartialContent ::
  "string \<Rightarrow> ContentBlock list \<Rightarrow> StreamingStateMachine \<Rightarrow> StreamingStateMachine" where
  "onPartialContent sid blocks m =
     setState \<lparr>isStreaming = True, partialContent = Some blocks, sessionId = Some sid\<rparr> m"

definition onComplete :: "string \<Rightarrow> StreamingStateMachine \<Rightarrow> StreamingStateMachine" where
  "onComplete sid m =
     (if sessionId (state m) = Some sid \<or> sessionId (state m) = None
      then setState \<lparr>isStreaming = False, partialContent = None, sessionId = None\<rparr> m
      else m)"

definition reset :: "StreamingStateMachine \<Rightarrow> StreamingStateMachine" where
  "reset m = setState INITIAL_STATE m"

definition subscribeStreaming :: "nat \<Rightarrow> StreamingStateMachine \<Rightarrow> StreamingStateMachine" where
  "subscribeStreaming l m =
     (if l \<in> set (listeners m) then m else m\<lparr>listeners := listeners m @ [l]\<rparr>)"

definition unsubscribeStreaming :: "nat \<Rightarrow> StreamingStateMachine \<Rightarrow> StreamingStateMachine" where
  "unsubscribeStreaming l m = m\<lparr>listeners := removeAll l (listeners m)\<rparr>"

section \<open>Message store (packages/core/src/state/message-store.ts)\<close>

text \<open>
  \<open>BaseMessage\<close> as the message types declare it. \<open>content\<close> has type \<open>unknown\<close>;
  \<open>sequence\<close> is a number, \<open>null\<close> or absent, and \<open>metadata\<close> may be absent.
\<close>

record BaseMessage =
  msg_id :: string
  sender :: string
  msg_content :: jsval
  createdAt :: string
  sequence :: jsval
  msg_metadata :: "(string \<times> jsval) list option"

text \<open>
  \<open>Partial<TMessage>\<close>: every property may be left out (\<open>None\<close>). The spread
  \<open>{...existing, ...updates}\<close> takes each property that \<open>updates\<close> has from it and
  the others from \<open>existing\<close>.
\<close>

record PartialMessage =
  upd_id :: "string option"
  upd_sender :: "string option"
  upd_content :: "jsval option"
  upd_createdAt :: "string option"
  upd_sequence :: "jsval option"
  upd_metadata :: "(string \<times> jsval) list option option"

definition spreadMessage :: "BaseMessage \<Rightarrow> PartialMessage \<Rightarrow> BaseMessage" where
  "spreadMessage existing updates =
     \<lparr>msg_id = (case upd_id updates of None \<Rightarrow> msg_id existing | Some v \<Rightarrow> v),
      sender = (case upd_sender updates of None \<Rightarrow> sender existing | Some v \<Rightarrow> v),
      msg_content = (case upd_content updates of None \<Rightarrow> msg_content existing | Some v \<Rightarrow> v),
      createdAt = (case upd_createdAt updates of None \<Rightarrow> createdAt existing | Some v \<Rightarrow> v),
      sequence = (case upd_sequence updates of None \<Rightarrow> sequence existing | Some v \<Rightarrow> v),
      msg_metadata =
        (case upd_metadata updates of None \<Rightarrow> msg_metadata existing | Some v \<Rightarrow> v)\<rparr>"

text \<open>
  The store. A JavaScript \<open>Map\<close> iterates in insertion order, \<open>set\<close> on a key it
  holds replaces the value where it stands and \<open>set\<close> on a new key appends: this is
  \<^const>\<open>AList.update\<close> on the list of entries; \<open>delete\<close> is \<^const>\<open>AList.delete\<close>.
  \<open>notified\<close> is the trace of the listener calls, each with the array it was given.
\<close>

record MessageStore =
  messages :: "(string \<times> BaseMessage) list"
  store_listeners :: "nat list"
  notified :: "(nat \<times> BaseMessage list) list"

definition createMessageStore :: MessageStore where
  "createMessageStore = \<lparr>messages = [], store_listeners = [], notified = []\<rparr>"

definition getMessages :: "MessageStore \<Rightarrow> BaseMessage list" where
  "getMessages s = map snd (messages s)"

definition getMessage :: "string \<Rightarrow> MessageStore \<Rightarrow> BaseMessage option" where
  "getMessage i s = map_of (messages s) i"

definition notifyListeners :: "MessageStore \<Rightarrow> MessageStore" where
  "notifyListeners s =
     (let msgs = getMessages s
      in s\<lparr>notified := notified s @ map (\<lambda>l. (l, msgs)) (store_listeners s)\<rparr>)"

definition addMessage :: "BaseMessage \<Rightarrow> MessageStore \<Rightarrow> MessageStore" where
  "addMessage message s =
     notifyListeners (s\<lparr>messages := AList.update (msg_id message) message (messages s)\<rparr>)"

definition addMessages :: "BaseMessage list \<Rightarrow> MessageStore \<Rightarrow> MessageStore" where
  "addMessages msgs s =
     notifyListeners
       (s\<lparr>messages := fold (\<lambda>message. AList.update (msg_id message) message) msgs (messages s)\<rparr>)"

definition updateMessage :: "string \<Rightarrow> PartialMessage \<Rightarrow> MessageStore \<Rightarrow> MessageStore" where
  "updateMessage i updates s =
     (case map_of (messages s) i of
        None \<Rightarrow> s
      | Some existing \<Rightarrow>
          notifyListeners
            (s\<lparr>messages := AList.update i (spreadMessage existing updates) (messages s)\<rparr>))"

definition removeMessage :: "string \<Rightarrow> MessageStore \<Rightarrow> MessageStore" where
  "removeMessage i s =
     (if i \<in> fst ` set (messages s)
      then notifyListeners (s\<lparr>messages := AList.delete i (messages s)\<rparr>)
      else s)"

definition clear :: "MessageStore \<Rightarrow> MessageStore" where
  "clear s = notifyListeners (s\<lparr>messages := []\<rparr>)"

definition subscribeStore :: "nat \<Rightarrow> MessageStore \<Rightarrow> MessageStore" where
  "subscribeStore l s =
     (if l \<in> set (store_listeners s) then s
      else s\<lparr>store_listeners := store_listeners s @ [l]\<rparr>)"

definition unsubscribeStore :: "nat \<Rightarrow> MessageStore \<Rightarrow> MessageStore" where
  "unsubscribeStore l s = s\<lparr>store_listeners := removeAll l (store_listeners s)\<rparr>"

text \<open>A caller's use of a store: any sequence of its public operations, from a new store.\<close>

datatype store_op =
    AddMessage BaseMessage
  | AddMessages "BaseMessage list"
  | UpdateMessage string PartialMessage
  | RemoveMessage string
  | Clear
  | Subscribe nat
  | Unsubscribe nat

fun applyStoreOp :: "store_op \<Rightarrow> MessageStore \<Rightarrow> MessageStore" where
  "applyStoreOp (AddMessage m) s = addMessage m s"
| "applyStoreOp (AddMessages ms) s = addMessages ms s"
| "applyStoreOp (UpdateMessage i u) s = updateMessage i u s"
| "applyStoreOp (RemoveMessage i) s = removeMessage i s"
| "applyStoreOp Clear s = clear s"
| "applyStoreOp (Subscribe l) s = subscribeStore l s"
| "applyStoreOp (Unsubscribe l) s = unsubscribeStore l s"

definition runStore :: "store_op list \<Rightarrow> MessageStore" where
  "runStore ops = fold applyStoreOp ops createMessageStore"

text \<open>
  The ids a sequence of operations has added and not removed since, in the order of the
  additions (an id added again is listed again), and the order of first occurrence in
  such a list.
\<close>

fun liveIdsStep :: "store_op \<Rightarrow> string list \<Rightarrow> string list" where
  "liveIdsStep (AddMessage m) acc = acc @ [msg_id m]"
| "liveIdsStep (AddMessages ms) acc = acc @ map msg_id ms"
| "liveIdsStep (RemoveMessage i) acc = removeAll i acc"
| "liveIdsStep Clear acc = []"
| "liveIdsStep _ acc = acc"

definition liveIds :: "store_op list \<Rightarrow> string list" where
  "liveIds ops = fold liveIdsStep ops []"

definition firstSeen :: "'a list \<Rightarrow> 'a list" where
  "firstSeen xs = rev (remdups (rev xs))"

text \<open>Sample data: a message with a given id and text, a short history and a batch.\<close>

definition demoMessage :: "string \<Rightarrow> string \<Rightarrow> BaseMessage" where
  "demoMessage i txt =
     \<lparr>msg_id = i, sender = ''user'', msg_content = JStr txt,
      createdAt = ''2024-01-01T00:00:00.000Z'', sequence = JUndefined, msg_metadata = None\<rparr>"

definition demoOps :: "store_op list" where
  "demoOps = [Subscribe 1, AddMessage (demoMessage ''a'' ''old''),
              AddMessage (demoMessage ''c'' ''kept'')]"

definition demoBatch :: "BaseMessage list" where
  "demoBatch = [demoMessage ''a'' ''first'', demoMessage ''b'' ''only'',
                demoMessage ''a'' ''second'']"

definition demoHistory :: "store_op list" where
  "demoHistory = [AddMessage (demoMessage ''a'' ''one''), AddMessage (demoMessage ''b'' ''two''),
                  RemoveMessage ''a'', AddMessage (demoMessage ''a'' ''three'')]"

section \<open>WebSocket transport (unnamed/part_003, class WebSocketTransport)\<close>

datatype ConnectionStatus = Disconnected | Connecting | Connected | Reconnecting | Error

text \<open>The configuration a caller passes (\<open>WebSocketTransportConfig\<close>); \<open>None\<close> is a
  property left out.\<close>

record ReconnectOptions =
  opt_enabled :: "bool option"
  opt_maxAttempts :: "int option"
  opt_baseDelay :: "int option"
  opt_maxDelay :: "int option"

record WebSocketTransportConfig =
  opt_url :: string
  opt_reconnect :: "ReconnectOptions option"
  opt_heartbeatInterval :: "int option"
  opt_authToken :: "string option"

text \<open>The private \<open>config\<close> of a transport, with the defaults filled in.\<close>

record TransportConfig =
  config_url :: string
  heartbeatInterval :: int
  authToken :: "string option"
  enabled :: bool
  maxAttempts :: int
  baseDelay :: int
  maxDelay :: int

text \<open>
  What the transport works on, outside itself: the sockets it has created (a socket is
  named by its position in \<open>sockets\<close>), the timeouts and intervals it has set (named by
  position too; the flag says whether the timer is still pending), and the traces of its
  effects: the frames handed to \<open>ws.send\<close> (the data before \<open>JSON.stringify\<close>) and the
  calls of status listeners and of event callbacks. Callbacks are named by numbers.
\<close>

datatype ReadyState = CONNECTING | OPEN | CLOSING | CLOSED

record Socket =
  sock_url :: string
  sock_token :: "string option"
  readyState :: ReadyState

record WebSocketTransport =
  ws :: "nat option"
  status :: ConnectionStatus
  statusListeners :: "nat list"
  sessionSubscribers :: "(string \<times> nat list) list"
  allSubscribers :: "nat list"
  reconnectAttempts :: nat
  reconnectTimer :: "nat option"
  heartbeatTimer :: "nat option"
  config :: TransportConfig
  sockets :: "Socket list"
  timeouts :: "(int \<times> bool) list"
  intervals :: "(int \<times> bool) list"
  sent :: "(nat \<times> jsval) list"
  statusCalls :: "(nat \<times> ConnectionStatus) list"
  eventCalls :: "(nat \<times> NormalizedEvent) list"

definition orDefault :: "'a option \<Rightarrow> 'a \<Rightarrow> 'a" where
  "orDefault v d = (case v of None \<Rightarrow> d | Some x \<Rightarrow> x)"

definition reconnectOption :: "WebSocketTransportConfig \<Rightarrow> (ReconnectOptions \<Rightarrow> 'a option) \<Rightarrow> 'a option" where
  "reconnectOption cfg field = (case opt_reconnect cfg of None \<Rightarrow> None | Some r \<Rightarrow> field r)"

definition createWebSocketTransport :: "WebSocketTransportConfig \<Rightarrow> WebSocketTransport" where
  "createWebSocketTransport cfg =
     \<lparr>ws = None, status = Disconnected, statusListeners = [], sessionSubscribers = [],
      allSubscribers = [], reconnectAttempts = 0, reconnectTimer = None, heartbeatTimer = None,
      config =
        \<lparr>config_url = opt_url cfg,
         heartbeatInterval = orDefault (opt_heartbeatInterval cfg) 30000,
         authToken = opt_authToken cfg,
         enabled = orDefault (reconnectOption cfg opt_enabled) True,
         maxAttempts = orDefault (reconnectOption cfg opt_maxAttempts) 10,
         baseDelay = orDefault (reconnectOption cfg opt_baseDelay) 1000,
         maxDelay = orDefault (reconnectOption cfg opt_maxDelay) 30000\<rparr>,
      sockets = [], timeouts = [], intervals = [], sent = [], statusCalls = [],
      eventCalls = []\<rparr>"

definition setAdd :: "'a \<Rightarrow> 'a list \<Rightarrow> 'a list" where
  "setAdd x xs = (if x \<in> set xs then xs else xs @ [x])"

definition setStatus :: "ConnectionStatus \<Rightarrow> WebSocketTransport \<Rightarrow> WebSocketTransport" where
  "setStatus st t =
     (if status t \<noteq> st
      then t\<lparr>status := st,
             statusCalls := statusCalls t @ map (\<lambda>listener. (listener, st)) (statusListeners t)\<rparr>
      else t)"

definition sendRaw :: "jsval \<Rightarrow> WebSocketTransport \<Rightarrow> WebSocketTransport" where
  "sendRaw data t =
     (case ws t of
        None \<Rightarrow> t
      | Some k \<Rightarrow>
          (if k < length (sockets t) \<and> readyState (sockets t ! k) = OPEN
           then t\<lparr>sent := sent t @ [(k, data)]\<rparr> else t))"

definition cancelTimer :: "nat \<Rightarrow> (int \<times> bool) list \<Rightarrow> (int \<times> bool) list" where
  "cancelTimer h ts = (if h < length ts then ts[h := (fst (ts ! h), False)] else ts)"

definition clearReconnectTimer :: "WebSocketTransport \<Rightarrow> WebSocketTransport" where
  "clearReconnectTimer t =
     (case reconnectTimer t of
        None \<Rightarrow> t
      | Some h \<Rightarrow> t\<lparr>timeouts := cancelTimer h (timeouts t), reconnectTimer := None\<rparr>)"

definition stopHeartbeat :: "WebSocketTransport \<Rightarrow> WebSocketTransport" where
  "stopHeartbeat t =
     (case heartbeatTimer t of
        None \<Rightarrow> t
      | Some h \<Rightarrow> t\<lparr>intervals := cancelTimer h (intervals t), heartbeatTimer := None\<rparr>)"

definition startHeartbeat :: "WebSocketTransport \<Rightarrow> WebSocketTransport" where
  "startHeartbeat t =
     (let t1 = stopHeartbeat t
      in t1\<lparr>intervals := intervals t1 @ [(heartbeatInterval (config t1), True)],
            heartbeatTimer := Some (length (intervals t1))\<rparr>)"

definition heartbeatTick :: "WebSocketTransport \<Rightarrow> WebSocketTransport" where
  "heartbeatTick t =
     (if status t = Connected then sendRaw (JObj [(''type'', JStr ''ping'')]) t else t)"

text \<open>
  \<open>connect\<close>. \<open>ok\<close> says whether \<open>new URL(config.url)\<close> and \<open>new WebSocket(...)\<close>
  succeed; when one of them throws, the \<open>catch\<close> sets the status to \<open>error\<close> and rejects.
  The result is the promise: resolved at once, pending on the new socket, or rejected.
  The token is set on the URL when \<open>config.authToken\<close> is truthy.
\<close>

datatype connect_result = Resolved | Pending nat | Rejected

definition connect :: "bool \<Rightarrow> WebSocketTransport \<Rightarrow> connect_result \<times> WebSocketTransport" where
  "connect ok t =
     (if status t = Connected \<or> status t = Connecting then (Resolved, t)
      else
        let t1 = setStatus Connecting t in
        if ok then
          (Pending (length (sockets t1)),
           t1\<lparr>sockets := sockets t1 @
                  [\<lparr>sock_url = config_url (config t1),
                    sock_token = (case authToken (config t1) of
                                    None \<Rightarrow> None
                                  | Some tok \<Rightarrow> if tok \<noteq> [] then Some tok else None),
                    readyState = CONNECTING\<rparr>],
                ws := Some (length (sockets t1))\<rparr>)
        else (Rejected, setStatus Error t1))"

definition scheduleReconnect :: "WebSocketTransport \<Rightarrow> WebSocketTransport" where
  "scheduleReconnect t =
     (let t1 = clearReconnectTimer t;
          delay = min (baseDelay (config t1) * 2 ^ reconnectAttempts t1) (maxDelay (config t1))
      in t1\<lparr>timeouts := timeouts t1 @ [(delay, True)],
            reconnectTimer := Some (length (timeouts t1))\<rparr>)"

text \<open>The callback that \<open>scheduleReconnect\<close> hands to \<open>setTimeout\<close>.\<close>

definition reconnectCallback :: "bool \<Rightarrow> WebSocketTransport \<Rightarrow> WebSocketTransport" where
  "reconnectCallback ok t = snd (connect ok (t\<lparr>reconnectAttempts := reconnectAttempts t + 1\<rparr>))"

definition handleDisconnect :: "WebSocketTransport \<Rightarrow> WebSocketTransport" where
  "handleDisconnect t =
     (if \<not> enabled (config t) then setStatus Disconnected t
      else if int (reconnectAttempts t) \<ge> maxAttempts (config t) then setStatus Error t
      else scheduleReconnect (setStatus Reconnecting t))"

text \<open>The handlers that \<open>connect\<close> puts on each socket.\<close>

definition onopen :: "WebSocketTransport \<Rightarrow> WebSocketTransport" where
  "onopen t = startHeartbeat (setStatus Connected (t\<lparr>reconnectAttempts := 0\<rparr>))"

definition onclose :: "bool \<Rightarrow> WebSocketTransport \<Rightarrow> WebSocketTransport" where
  "onclose wasClean t =
     (let t1 = stopHeartbeat t
      in if wasClean then setStatus Disconnected t1 else handleDisconnect t1)"

definition onerror :: "WebSocketTransport \<Rightarrow> WebSocketTransport" where
  "onerror t = setStatus Error t"

definition closeSocket :: "nat \<Rightarrow> Socket list \<Rightarrow> Socket list" where
  "closeSocket k ss =
     (if k < length ss \<and> readyState (ss ! k) \<noteq> CLOSED
      then ss[k := (ss ! k)\<lparr>readyState := CLOSING\<rparr>] else ss)"

definition disconnect :: "WebSocketTransport \<Rightarrow> WebSocketTransport" where
  "disconnect t =
     (let t1 = clearReconnectTimer (stopHeartbeat t);
          t2 = (case ws t1 of
                  None \<Rightarrow> t1
                | Some k \<Rightarrow> t1\<lparr>sockets := closeSocket k (sockets t1), ws := None\<rparr>)
      in setStatus Disconnected t2)"

text \<open>
  \<open>subscribe\<close> and the function it returns (\<open>unsubscribe\<close>, closed over the session
  id and the callback). \<open>sessionSubscribers\<close> is a \<open>Map\<close> from session ids to
  \<open>Set\<close>s of callbacks, both kept in insertion order.
\<close>

definition subscribeFrame :: "string \<Rightarrow> jsval" where
  "subscribeFrame sid = JObj [(''type'', JStr ''subscribe''), (''sessionId'', JStr sid)]"

definition unsubscribeFrame :: "string \<Rightarrow> jsval" where
  "unsubscribeFrame sid = JObj [(''type'', JStr ''unsubscribe''), (''sessionId'', JStr sid)]"

definition subscribe :: "string \<Rightarrow> nat \<Rightarrow> WebSocketTransport \<Rightarrow> WebSocketTransport" where
  "subscribe sid callback t =
     (let t1 = (if sid \<notin> fst ` set (sessionSubscribers t)
                then sendRaw (subscribeFrame sid)
                       (t\<lparr>sessionSubscribers := AList.update sid [] (sessionSubscribers t)\<rparr>)
                else t)
      in case map_of (sessionSubscribers t1) sid of
           None \<Rightarrow> t1
         | Some subscribers \<Rightarrow>
             t1\<lparr>sessionSubscribers :=
                   AList.update sid (setAdd callback subscribers) (sessionSubscribers t1)\<rparr>)"

definition unsubscribe :: "string \<Rightarrow> nat \<Rightarrow> WebSocketTransport \<Rightarrow> WebSocketTransport" where
  "unsubscribe sid callback t =
     (case map_of (sessionSubscribers t) sid of
        None \<Rightarrow> t
      | Some subscribers \<Rightarrow>
          (let remaining = removeAll callback subscribers
           in if length remaining = 0
              then sendRaw (unsubscribeFrame sid)
                     (t\<lparr>sessionSubscribers := AList.delete sid (sessionSubscribers t)\<rparr>)
              else t\<lparr>sessionSubscribers := AList.update sid remaining (sessionSubscribers t)\<rparr>))"

definition subscribeAll :: "nat \<Rightarrow> WebSocketTransport \<Rightarrow> WebSocketTransport" where
  "subscribeAll callback t =
     (let t1 = t\<lparr>allSubscribers := setAdd callback (allSubscribers t)\<rparr>
      in if length (allSubscribers t1) = 1
         then sendRaw (JObj [(''type'', JStr ''subscribe''), (''all'', JBool True)]) t1
         else t1)"

definition unsubscribeAll :: "nat \<Rightarrow> WebSocketTransport \<Rightarrow> WebSocketTransport" where
  "unsubscribeAll callback t =
     (let t1 = t\<lparr>allSubscribers := removeAll callback (allSubscribers t)\<rparr>
      in if length (allSubscribers t1) = 0
         then sendRaw (JObj [(''type'', JStr ''unsubscribe''), (''all'', JBool True)]) t1
         else t1)"

record OutgoingMessage =
  out_sessionId :: string
  out_type :: string
  out_content :: string
  out_attachments :: jsval
  out_metadata :: jsval

definition send :: "OutgoingMessage \<Rightarrow> WebSocketTransport \<Rightarrow> js_error + WebSocketTransport" where
  "send message t =
     (if status t \<noteq> Connected \<or> ws t = None then Inl (JsError ''Not connected'')
      else Inr (sendRaw
             (JObj [(''type'', JStr ''message''),
                    (''sessionId'', JStr (out_sessionId message)),
                    (''content'', JStr (out_content message)),
                    (''messageType'', JStr (out_type message)),
                    (''attachments'', out_attachments message),
                    (''metadata'', out_metadata message)]) t))"

definition getStatus :: "WebSocketTransport \<Rightarrow> ConnectionStatus" where
  "getStatus t = status t"

definition onStatusChange :: "nat \<Rightarrow> WebSocketTransport \<Rightarrow> WebSocketTransport" where
  "onStatusChange callback t = t\<lparr>statusListeners := setAdd callback (statusListeners t)\<rparr>"

definition offStatusChange :: "nat \<Rightarrow> WebSocketTransport \<Rightarrow> WebSocketTransport" where
  "offStatusChange callback t = t\<lparr>statusListeners := removeAll callback (statusListeners t)\<rparr>"

text \<open>
  \<open>handleMessage\<close> with the default normalizer. \<open>parsed\<close> is the outcome of
  \<open>JSON.parse(data)\<close>, \<open>None\<close> when it throws. Reading \<open>raw.type\<close> throws on
  \<open>null\<close>. Whatever is thrown inside the \<open>try\<close> is caught and logged, and the transport
  stays as it was.
\<close>

definition handleMessage :: "string \<Rightarrow> jsval option \<Rightarrow> WebSocketTransport \<Rightarrow> WebSocketTransport" where
  "handleMessage now parsed t =
     (case parsed of
        None \<Rightarrow> t
      | Some raw \<Rightarrow>
          if isNullish raw then t
          else if (if typeofObject raw then getProp raw ''type'' else JUndefined) = JStr ''pong''
          then t
          else
            (case normalize now raw of
               Inl e \<Rightarrow> t
             | Inr None \<Rightarrow> t
             | Inr (Some event) \<Rightarrow>
                 (let sessionCallbacks =
                        (case map_of (sessionSubscribers t) (ev_sessionId event) of
                           None \<Rightarrow> []
                         | Some callbacks \<Rightarrow> callbacks)
                  in t\<lparr>eventCalls := eventCalls t
                          @ map (\<lambda>callback. (callback, event)) sessionCallbacks
                          @ map (\<lambda>callback. (callback, event)) (allSubscribers t)\<rparr>)))"

text \<open>
  What happens to a transport from outside: calls of its public methods, and the events of
  its sockets and timers. A socket opens only while it is connecting and closes once; a
  timeout fires once, unless it was cleared; an interval ticks until it is cleared.
\<close>

datatype transport_event =
    Connect bool
  | Disconnect
  | SocketOpen nat
  | SocketClose nat bool
  | SocketError nat
  | SocketMessage nat string "jsval option"
  | TimeoutFires nat bool
  | IntervalTicks nat

definition setReadyState :: "nat \<Rightarrow> ReadyState \<Rightarrow> WebSocketTransport \<Rightarrow> WebSocketTransport" where
  "setReadyState k r t = t\<lparr>sockets := (sockets t)[k := (sockets t ! k)\<lparr>readyState := r\<rparr>]\<rparr>"

fun happen :: "transport_event \<Rightarrow> WebSocketTransport \<Rightarrow> WebSocketTransport" where
  "happen (Connect ok) t = snd (connect ok t)"
| "happen Disconnect t = disconnect t"
| "happen (SocketOpen k) t =
     (if k < length (sockets t) \<and> readyState (sockets t ! k) = CONNECTING
      then onopen (setReadyState k OPEN t) else t)"
| "happen (SocketClose k wasClean) t =
     (if k < length (sockets t) \<and> readyState (sockets t ! k) \<noteq> CLOSED
      then onclose wasClean (setReadyState k CLOSED t) else t)"
| "happen (SocketError k) t =
     (if k < length (sockets t) \<and> readyState (sockets t ! k) \<noteq> CLOSED
      then onerror t else t)"
| "happen (SocketMessage k now parsed) t =
     (if k < length (sockets t) \<and> readyState (sockets t ! k) = OPEN
      then handleMessage now parsed t else t)"
| "happen (TimeoutFires h ok) t =
     (if h < length (timeouts t) \<and> snd (timeouts t ! h)
      then reconnectCallback ok (t\<lparr>timeouts := cancelTimer h (timeouts t)\<rparr>) else t)"
| "happen (IntervalTicks h) t =
     (if h < length (intervals t) \<and> snd (intervals t ! h) then heartbeatTick t else t)"

declare happen.simps [simp del]

definition happenAll :: "transport_event list \<Rightarrow> WebSocketTransport \<Rightarrow> WebSocketTransport" where
  "happenAll es t = fold happen es t"

text \<open>The test of \<open>sendRaw\<close>: there is a socket and its \<open>readyState\<close> is \<open>OPEN\<close>.\<close>

definition socketOpen :: "WebSocketTransport \<Rightarrow> bool" where
  "socketOpen t =
     (case ws t of
        None \<Rightarrow> False
      | Some k \<Rightarrow> k < length (sockets t) \<and> readyState (sockets t ! k) = OPEN)"

text \<open>The frames a step has handed to the socket: what \<open>sent\<close> has gained.\<close>

definition framesSent :: "WebSocketTransport \<Rightarrow> WebSocketTransport \<Rightarrow> jsval list" where
  "framesSent before after = map snd (drop (length (sent before)) (sent after))"

text \<open>
  A run of failed reconnect attempts: the current socket \<open>s\<close> closes uncleanly, the
  timeout \<open>h\<close> set for the retry fires and \<open>connect()\<close> creates the next socket, which
  closes uncleanly in turn, and so on. \<open>awaitingSocket s h n t\<close> describes the transport
  at the start of each round: \<open>s\<close> is its current and newest socket, not yet closed,
  \<open>h\<close> timeouts have been set so far, the status is \<open>connected\<close> or \<open>connecting\<close>, the
  counter is \<open>n\<close> and reconnection is enabled.
\<close>

fun failedAttempts :: "nat \<Rightarrow> nat \<Rightarrow> nat \<Rightarrow> transport_event list" where
  "failedAttempts s h 0 = []"
| "failedAttempts s h (Suc k) =
     SocketClose s False # TimeoutFires h True # failedAttempts (Suc s) (Suc h) k"

definition awaitingSocket :: "nat \<Rightarrow> nat \<Rightarrow> nat \<Rightarrow> WebSocketTransport \<Rightarrow> bool" where
  "awaitingSocket s h n t =
     (ws t = Some s \<and> length (sockets t) = Suc s \<and> readyState (sockets t ! s) \<noteq> CLOSED
      \<and> length (timeouts t) = h \<and> (status t = Connected \<or> status t = Connecting)
      \<and> reconnectAttempts t = n \<and> enabled (config t))"

text \<open>
  Sample transports: a configuration that sets only \<open>maxAttempts\<close>; a transport with one
  status listener whose socket opened, was lost, and whose two reconnect attempts both ended
  in an unclean close; and a transport whose socket is open.
\<close>

definition demoConfig :: "int \<Rightarrow> WebSocketTransportConfig" where
  "demoConfig n =
     \<lparr>opt_url = ''wss://chat.example/socket'',
      opt_reconnect = Some \<lparr>opt_enabled = None, opt_maxAttempts = Some n,
                            opt_baseDelay = None, opt_maxDelay = None\<rparr>,
      opt_heartbeatInterval = None, opt_authToken = None\<rparr>"

definition exhaustedTransport :: WebSocketTransport where
  "exhaustedTransport =
     happenAll [Connect True, SocketOpen 0,
                SocketClose 0 False, TimeoutFires 0 True,
                SocketClose 1 False, TimeoutFires 1 True,
                SocketClose 2 False]
       (onStatusChange 7 (createWebSocketTransport (demoConfig 2)))"

definition connectedTransport :: WebSocketTransport where
  "connectedTransport =
     happenAll [Connect True, SocketOpen 0]
       (onStatusChange 7 (createWebSocketTransport (demoConfig 2)))"

section \<open>Timeline builder (packages/core/src/state/timeline-builder.ts)\<close>

text \<open>
  Messages, events and timeline items are handled through their properties, by name, so
  they are runtime objects here. \<open>DeduplicationRule.field\<close> is declared
  \<open>keyof BaseMessage\<close>; \<open>priority\<close> is a number.
\<close>

datatype Strategy = First | Last

datatype Direction = Asc | Desc

record DeduplicationRule =
  dedup_field :: string
  strategy :: Strategy

record SortingRule =
  field :: string
  direction :: Direction
  priority :: int

definition keyofBaseMessage :: "string list" where
  "keyofBaseMessage = [''id'', ''sender'', ''content'', ''createdAt'', ''sequence'', ''metadata'']"

definition DEFAULT_SORTING_RULES :: "SortingRule list" where
  "DEFAULT_SORTING_RULES =
     [\<lparr>field = ''sequence'', direction = Asc, priority = 1\<rparr>,
      \<lparr>field = ''createdAt'', direction = Asc, priority = 2\<rparr>,
      \<lparr>field = ''id'', direction = Asc, priority = 3\<rparr>]"

definition DEFAULT_DEDUP_RULES :: "DeduplicationRule list" where
  "DEFAULT_DEDUP_RULES = [\<lparr>dedup_field = ''id'', strategy = Last\<rparr>]"

text \<open>\<open>field.split('.')\<close>: the pieces between the dots, at least one.\<close>

fun splitDot :: "string \<Rightarrow> string list" where
  "splitDot [] = [[]]"
| "splitDot (c # cs) =
     (if c = CHR ''.'' then [] # splitDot cs
      else case splitDot cs of [] \<Rightarrow> [[c]] | p # ps \<Rightarrow> (c # p) # ps)"

fun walkParts :: "jsval \<Rightarrow> string list \<Rightarrow> jsval" where
  "walkParts v [] = v"
| "walkParts v (part # parts) =
     (if isNullish v \<or> \<not> typeofObject v then JUndefined
      else walkParts (getProp v part) parts)"

definition getFieldValue :: "jsval \<Rightarrow> string \<Rightarrow> jsval" where
  "getFieldValue obj fld = walkParts obj (splitDot fld)"

text \<open>
  The comparison of two items under one rule, as one turn of the loop in
  \<open>createCompareFunction\<close> computes it; 0 stands for going on to the next rule.
  \<open>lc\<close> is \<open>String.prototype.localeCompare\<close>, which depends on the host's locale.
\<close>

definition valueComparison ::
  "(string \<Rightarrow> string \<Rightarrow> int) \<Rightarrow> jsval \<Rightarrow> jsval \<Rightarrow> js_error + int" where
  "valueComparison lc aVal bVal =
     (case (aVal, bVal) of
        (JNum x, JNum y) \<Rightarrow> Inr (x - y)
      | (JStr s, JStr t) \<Rightarrow> Inr (lc s t)
      | _ \<Rightarrow>
          (case jsString aVal of
             Inl e \<Rightarrow> Inl e
           | Inr s \<Rightarrow> (case jsString bVal of Inl e \<Rightarrow> Inl e | Inr t \<Rightarrow> Inr (lc s t))))"

definition ruleCompare ::
  "(string \<Rightarrow> string \<Rightarrow> int) \<Rightarrow> SortingRule \<Rightarrow> jsval \<Rightarrow> jsval \<Rightarrow> js_error + int" where
  "ruleCompare lc rule a b =
     (let aVal = getFieldValue a (field rule);
          bVal = getFieldValue b (field rule)
      in if isNullish aVal \<and> isNullish bVal then Inr 0
         else if isNullish aVal then Inr 1
         else if isNullish bVal then Inr (- 1)
         else case valueComparison lc aVal bVal of
                Inl e \<Rightarrow> Inl e
              | Inr comparison \<Rightarrow>
                  (if comparison \<noteq> 0
                   then Inr (if direction rule = Desc then - comparison else comparison)
                   else Inr 0))"

fun compareItems ::
  "(string \<Rightarrow> string \<Rightarrow> int) \<Rightarrow> SortingRule list \<Rightarrow> jsval \<Rightarrow> jsval \<Rightarrow> js_error + int" where
  "compareItems lc [] a b = Inr 0"
| "compareItems lc (rule # rules) a b =
     (case ruleCompare lc rule a b of
        Inl e \<Rightarrow> Inl e
      | Inr c \<Rightarrow> if c \<noteq> 0 then Inr c else compareItems lc rules a b)"

text \<open>
  \<open>[...rules].sort((a, b) => a.priority - b.priority)\<close>: the stable sort by priority,
  which \<^const>\<open>sort_key\<close> is.
\<close>

definition sortedRules :: "SortingRule list \<Rightarrow> SortingRule list" where
  "sortedRules rules = sort_key priority rules"

definition createCompareFunction ::
  "(string \<Rightarrow> string \<Rightarrow> int) \<Rightarrow> SortingRule list \<Rightarrow> jsval \<Rightarrow> jsval \<Rightarrow> js_error + int" where
  "createCompareFunction lc rules = compareItems lc (sortedRules rules)"

text \<open>
  \<open>Array.prototype.sort\<close> with a comparison function. The language fixes the result
  when the function is a consistent order: the stable sort. Otherwise the order is left to
  the implementation. The model is the stable insertion sort, which yields the stable sort
  in the first case and one of the possible orders in the second; an exception of the
  comparison function ends the sort.
\<close>

fun insertSorted ::
  "('a \<Rightarrow> 'a \<Rightarrow> js_error + int) \<Rightarrow> 'a \<Rightarrow> 'a list \<Rightarrow> js_error + 'a list" where
  "insertSorted cmp x [] = Inr [x]"
| "insertSorted cmp x (y # ys) =
     (case cmp x y of
        Inl e \<Rightarrow> Inl e
      | Inr c \<Rightarrow>
          if c \<le> 0 then Inr (x # y # ys)
          else (case insertSorted cmp x ys of Inl e \<Rightarrow> Inl e | Inr r \<Rightarrow> Inr (y # r)))"

fun arraySort :: "('a \<Rightarrow> 'a \<Rightarrow> js_error + int) \<Rightarrow> 'a list \<Rightarrow> js_error + 'a list" where
  "arraySort cmp [] = Inr []"
| "arraySort cmp (x # xs) =
     (case arraySort cmp xs of Inl e \<Rightarrow> Inl e | Inr r \<Rightarrow> insertSorted cmp x r)"
text \<open>
  \<open>deduplicateItems\<close>: \<open>seen\<close> is a \<open>Map\<close> from the string of the field's value
  to the item kept for it.
\<close>

fun applyDedupRules ::
  "jsval \<Rightarrow> DeduplicationRule list \<Rightarrow> (string \<times> jsval) list \<Rightarrow> js_error + (string \<times> jsval) list" where
  "applyDedupRules item [] seen = Inr seen"
| "applyDedupRules item (rule # rules) seen =
     (case jsString (getFieldValue item (dedup_field rule)) of
        Inl e \<Rightarrow> Inl e
      | Inr key \<Rightarrow>
          applyDedupRules item rules
            (if strategy rule = First
             then (if key \<notin> fst ` set seen then AList.update key item seen else seen)
             else AList.update key item seen))"

fun dedupLoop ::
  "jsval list \<Rightarrow> DeduplicationRule list \<Rightarrow> (string \<times> jsval) list \<Rightarrow> js_error + (string \<times> jsval) list" where
  "dedupLoop [] rules seen = Inr seen"
| "dedupLoop (item # items) rules seen =
     (case applyDedupRules item rules seen of
        Inl e \<Rightarrow> Inl e
      | Inr seen' \<Rightarrow> dedupLoop items rules seen')"

definition deduplicateItems :: "jsval list \<Rightarrow> DeduplicationRule list \<Rightarrow> js_error + jsval list" where
  "deduplicateItems items rules =
     (case dedupLoop items rules [] of Inl e \<Rightarrow> Inl e | Inr seen \<Rightarrow> Inr (map snd seen))"

text \<open>
  The object spread \<open>{...v, itemType: t}\<close>: the own properties of \<open>v\<close> (of an array,
  its elements under their indices; of a string, its characters), with \<open>itemType\<close> set.
\<close>

fun ownProperties :: "jsval \<Rightarrow> (string \<times> jsval) list" where
  "ownProperties (JObj kvs) = kvs"
| "ownProperties (JArr xs) = zip (map showNat [0 ..< length xs]) xs"
| "ownProperties (JStr s) = zip (map showNat [0 ..< length s]) (map (\<lambda>c. JStr [c]) s)"
| "ownProperties _ = []"

definition withItemType :: "string \<Rightarrow> jsval \<Rightarrow> jsval" where
  "withItemType t v = JObj (AList.update ''itemType'' (JStr t) (ownProperties v))"

record TimelineBuildParams =
  tl_messages :: "jsval list"
  tl_events :: "jsval list option"
  tl_isStreaming :: "bool option"
  tl_partialContent :: "ContentBlock list option"
  deduplicationRules :: "DeduplicationRule list option"
  sortingRules :: "SortingRule list option"

definition allItems :: "TimelineBuildParams \<Rightarrow> jsval list" where
  "allItems params =
     map (withItemType ''message'') (tl_messages params)
     @ map (withItemType ''event'') (orDefault (tl_events params) [])"

definition build ::
  "(string \<Rightarrow> string \<Rightarrow> int) \<Rightarrow> TimelineBuildParams \<Rightarrow> js_error + jsval list" where
  "build lc params =
     (case deduplicateItems (allItems params)
             (orDefault (deduplicationRules params) DEFAULT_DEDUP_RULES) of
        Inl e \<Rightarrow> Inl e
      | Inr dedupedItems \<Rightarrow>
          arraySort
            (createCompareFunction lc (orDefault (sortingRules params) DEFAULT_SORTING_RULES))
            dedupedItems)"




text \<open>
  Sample data for the timeline: a message object with a given id and sequence value, a
  comparison of strings by character codes to stand for \<open>localeCompare\<close>, the single
  sorting rule by ascending sequence, and build parameters with the sequences 3, 1, 2.
\<close>

definition demoItem :: "string \<Rightarrow> jsval \<Rightarrow> jsval" where
  "demoItem i seq =
     JObj [(''id'', JStr i), (''sender'', JStr ''bot''), (''content'', JStr ''hi''),
           (''createdAt'', JStr ''2024-05-01T10:00:00.000Z''), (''sequence'', seq)]"

fun codeUnitCompare :: "string \<Rightarrow> string \<Rightarrow> int" where
  "codeUnitCompare [] [] = 0"
| "codeUnitCompare [] (d # ds) = - 1"
| "codeUnitCompare (c # cs) [] = 1"
| "codeUnitCompare (c # cs) (d # ds) =
     (if (of_char c :: nat) < of_char d then - 1
      else if (of_char d :: nat) < of_char c then 1
      else codeUnitCompare cs ds)"

definition bySequence :: "SortingRule list" where
  "bySequence = [\<lparr>field = ''sequence'', direction = Asc, priority = 1\<rparr>]"

definition demoParams :: "TimelineBuildParams" where
  "demoParams =
     \<lparr>tl_messages = [demoItem ''a'' (JNum 3), demoItem ''b'' (JNum 1), demoItem ''c'' (JNum 2)],
      tl_events = None, tl_isStreaming = None, tl_partialContent = None,
      deduplicationRules = None, sortingRules = Some bySequence\<rparr>"

definition demoDedupParams :: "Strategy \<Rightarrow> TimelineBuildParams" where
  "demoDedupParams st =
     demoParams\<lparr>deduplicationRules := Some [\<lparr>dedup_field = ''metadata'', strategy = st\<rparr>]\<rparr>"


section \<open>Verified properties\<close>

subsection \<open>The streaming state machine\<close>

lemma setState_initial_state:
  "state (setState \<lparr>isStreaming = False, partialContent = None, sessionId = None\<rparr> m)
     = INITIAL_STATE"
  by (cases "partialContent (state m)")
     (auto simp: setState_def notifyStreamingListeners_def INITIAL_STATE_def Let_def)

lemma blocksLoop_refl: "blocksLoop xs xs"
  by (induction xs) auto

lemma onPartialContent_tracks:
  "isStreaming (state (onPartialContent sid blocks m)) \<and>
   sessionId (state (onPartialContent sid blocks m)) = Some sid \<and>
   contentBlocksEqual (partialContent (state (onPartialContent sid blocks m))) (Some blocks)"
  by (auto simp: onPartialContent_def setState_def notifyStreamingListeners_def Let_def
      blocksLoop_refl)

text \<open>
  C4. From any machine, after \<open>onPartialContent s1 blocks\<close> a completion for another
  session \<open>s2\<close> changes nothing at all (the state is still streaming for \<open>s1\<close>, and no
  listener is called), a following \<open>onComplete s1\<close> brings the state back to the initial
  \<open>{isStreaming: false, partialContent: null, sessionId: null}\<close>, and \<open>onComplete\<close>
  also yields the initial state whenever no session is tracked.
\<close>

theorem onComplete_only_for_tracked_session:
  "(s2 \<noteq> s1 \<longrightarrow>
      onComplete s2 (onPartialContent s1 blocks m) = onPartialContent s1 blocks m
      \<and> isStreaming (getState (onComplete s2 (onPartialContent s1 blocks m)))
      \<and> sessionId (getState (onComplete s2 (onPartialContent s1 blocks m))) = Some s1
      \<and> getState (onComplete s1 (onComplete s2 (onPartialContent s1 blocks m))) =
          \<lparr>isStreaming = False, partialContent = None, sessionId = None\<rparr>)
   \<and> (sessionId (getState m) = None \<longrightarrow>
      getState (onComplete s m) = \<lparr>isStreaming = False, partialContent = None, sessionId = None\<rparr>)"
proof -
  let ?m1 = "onPartialContent s1 blocks m"
  have tracked: "isStreaming (state ?m1)" "sessionId (state ?m1) = Some s1"
    using onPartialContent_tracks [of s1 blocks m] by simp_all
  have stale: "onComplete s2 ?m1 = ?m1" if "s2 \<noteq> s1"
    using that tracked by (simp add: onComplete_def)
  have done1: "state (onComplete s1 ?m1) = INITIAL_STATE"
    using tracked by (simp add: onComplete_def setState_initial_state)
  have untracked: "state (onComplete s m) = INITIAL_STATE" if "sessionId (state m) = None"
    using that by (simp add: onComplete_def setState_initial_state)
  show ?thesis
    using tracked stale done1 untracked by (simp add: getState_def INITIAL_STATE_def)
qed

theorem onComplete_only_for_tracked_session_witness:
  "''s2'' \<noteq> ''s1''
   \<and> sessionId (getState createStreamingStateMachine) = None
   \<and> onComplete ''s2'' (onPartialContent ''s1'' [] createStreamingStateMachine)
       = onPartialContent ''s1'' [] createStreamingStateMachine
   \<and> isStreaming (getState (onComplete ''s2''
         (onPartialContent ''s1'' [] createStreamingStateMachine)))
   \<and> sessionId (getState (onComplete ''s2''
         (onPartialContent ''s1'' [] createStreamingStateMachine))) = Some ''s1''
   \<and> getState (onComplete ''s1'' (onComplete ''s2''
         (onPartialContent ''s1'' [] createStreamingStateMachine)))
       = \<lparr>isStreaming = False, partialContent = None, sessionId = None\<rparr>
   \<and> getState (onComplete ''s1'' createStreamingStateMachine)
       = \<lparr>isStreaming = False, partialContent = None, sessionId = None\<rparr>"
proof -
  have distinct_ids: "''s2'' \<noteq> ''s1''"
    by simp
  have untracked: "sessionId (getState createStreamingStateMachine) = None"
    by (simp add: getState_def createStreamingStateMachine_def INITIAL_STATE_def)
  from onComplete_only_for_tracked_session
    [of "''s2''" "''s1''" "[]" createStreamingStateMachine "''s1''"] distinct_ids untracked
  show ?thesis
    by blast
qed

subsection \<open>The message store\<close>

lemma firstSeen_snoc:
  "firstSeen (xs @ [x]) = (if x \<in> set xs then firstSeen xs else firstSeen xs @ [x])"
  by (simp add: firstSeen_def)

lemma firstSeen_removeAll: "firstSeen (removeAll x xs) = removeAll x (firstSeen xs)"
  unfolding firstSeen_def
  by (induction xs rule: rev_induct) auto

lemma set_firstSeen: "set (firstSeen xs) = set xs"
  by (simp add: firstSeen_def)

lemma distinct_firstSeen: "distinct (firstSeen xs)"
  by (simp add: firstSeen_def)

lemma firstSeen_distinct: "distinct xs \<Longrightarrow> firstSeen xs = xs"
  by (simp add: firstSeen_def distinct_remdups_id)

lemma firstSeen_append_seen:
  "x \<in> set xs \<Longrightarrow> firstSeen (xs @ x # ys) = firstSeen (xs @ ys)"
proof (induction ys rule: rev_induct)
  case Nil
  then show ?case by (simp add: firstSeen_snoc)
next
  case (snoc y ys)
  have "firstSeen (xs @ x # ys @ [y]) = firstSeen ((xs @ x # ys) @ [y])" by simp
  also have "\<dots> = (if y \<in> set (xs @ x # ys) then firstSeen (xs @ x # ys)
                    else firstSeen (xs @ x # ys) @ [y])"
    by (rule firstSeen_snoc)
  also have "\<dots> = (if y \<in> set (xs @ ys) then firstSeen (xs @ ys) else firstSeen (xs @ ys) @ [y])"
    using snoc by auto
  also have "\<dots> = firstSeen ((xs @ ys) @ [y])"
    by (rule firstSeen_snoc [symmetric])
  finally show ?case by simp
qed

lemma firstSeen_idem_append: "firstSeen (firstSeen xs @ ys) = firstSeen (xs @ ys)"
proof (induction ys rule: rev_induct)
  case Nil
  then show ?case by (simp add: firstSeen_distinct distinct_firstSeen)
next
  case (snoc y ys)
  have "firstSeen (firstSeen xs @ ys @ [y]) = firstSeen ((firstSeen xs @ ys) @ [y])" by simp
  also have "\<dots> = (if y \<in> set (xs @ ys) then firstSeen (xs @ ys) else firstSeen (xs @ ys) @ [y])"
    using snoc by (simp only: firstSeen_snoc) (simp add: set_firstSeen)
  also have "\<dots> = firstSeen ((xs @ ys) @ [y])"
    by (rule firstSeen_snoc [symmetric])
  finally show ?case by simp
qed

lemma keys_update:
  "map fst (AList.update k v al) = (if k \<in> set (map fst al) then map fst al else map fst al @ [k])"
  by (simp add: update_keys image_iff)

lemma keys_fold_update:
  "distinct (map fst al) \<Longrightarrow>
   map fst (fold (\<lambda>m. AList.update (f m) m) ms al) = firstSeen (map fst al @ map f ms)"
proof (induction ms arbitrary: al)
  case Nil
  then show ?case by (simp add: firstSeen_distinct)
next
  case (Cons m ms)
  have d: "distinct (map fst (AList.update (f m) m al))"
    using Cons.prems by (rule distinct_update)
  have "map fst (fold (\<lambda>m. AList.update (f m) m) (m # ms) al)
        = firstSeen (map fst (AList.update (f m) m al) @ map f ms)"
    using Cons.IH [OF d] by simp
  also have "\<dots> = firstSeen (map fst al @ map f (m # ms))"
    by (simp add: keys_update firstSeen_append_seen)
  finally show ?case .
qed

lemma runStore_snoc: "runStore (ops @ [op]) = applyStoreOp op (runStore ops)"
  by (simp add: runStore_def)

lemma liveIds_snoc: "liveIds (ops @ [op]) = liveIdsStep op (liveIds ops)"
  by (simp add: liveIds_def)

lemma messages_notifyListeners: "messages (notifyListeners s) = messages s"
  by (simp add: notifyListeners_def Let_def)

lemma store_listeners_notifyListeners: "store_listeners (notifyListeners s) = store_listeners s"
  by (simp add: notifyListeners_def Let_def)

lemma keys_applyStoreOp:
  assumes "map fst (messages s) = firstSeen L"
  shows "map fst (messages (applyStoreOp op s)) = firstSeen (liveIdsStep op L)"
proof (cases op)
  case (AddMessage m)
  then show ?thesis
    using assms
    by (simp add: addMessage_def messages_notifyListeners keys_update firstSeen_snoc set_firstSeen)
next
  case (AddMessages ms)
  have d: "distinct (map fst (messages s))"
    using assms by (simp add: distinct_firstSeen)
  show ?thesis
    using AddMessages keys_fold_update [OF d, of msg_id ms] assms
    by (simp add: addMessages_def messages_notifyListeners firstSeen_idem_append)
next
  case (UpdateMessage i u)
  show ?thesis
  proof (cases "map_of (messages s) i")
    case None
    then show ?thesis using UpdateMessage assms by (simp add: updateMessage_def)
  next
    case (Some existing)
    then have "i \<in> fst ` set (messages s)"
      by (metis map_of_eq_None_iff option.distinct(1))
    then have "i \<in> set (map fst (messages s))"
      by simp
    then have "map fst (AList.update i (spreadMessage existing u) (messages s))
               = map fst (messages s)"
      by (simp only: keys_update if_True)
    then show ?thesis
      using UpdateMessage Some assms
      by (simp add: updateMessage_def messages_notifyListeners)
  qed
next
  case (RemoveMessage i)
  have "map fst (AList.delete i (messages s)) = removeAll i (map fst (messages s))"
    by (simp add: delete_keys)
  moreover have "i \<notin> fst ` set (messages s) \<Longrightarrow> removeAll i (map fst (messages s)) = map fst (messages s)"
    by simp
  ultimately show ?thesis
    using RemoveMessage assms
    by (simp add: removeMessage_def messages_notifyListeners firstSeen_removeAll)
next
  case Clear
  then show ?thesis by (simp add: clear_def messages_notifyListeners firstSeen_def)
next
  case (Subscribe l)
  then show ?thesis using assms by (simp add: subscribeStore_def)
next
  case (Unsubscribe l)
  then show ?thesis using assms by (simp add: unsubscribeStore_def)
qed

lemma keys_runStore: "map fst (messages (runStore ops)) = firstSeen (liveIds ops)"
proof (induction ops rule: rev_induct)
  case Nil
  then show ?case by (simp add: runStore_def liveIds_def createMessageStore_def firstSeen_def)
next
  case (snoc op ops)
  then show ?case by (simp add: runStore_snoc liveIds_snoc keys_applyStoreOp)
qed

lemma distinct_listeners_applyStoreOp:
  "distinct (store_listeners s) \<Longrightarrow> distinct (store_listeners (applyStoreOp op s))"
  by (cases op)
     (auto simp: addMessage_def addMessages_def updateMessage_def removeMessage_def clear_def
       subscribeStore_def unsubscribeStore_def store_listeners_notifyListeners distinct_removeAll
       split: option.splits)

lemma distinct_listeners_runStore: "distinct (store_listeners (runStore ops))"
proof (induction ops rule: rev_induct)
  case Nil
  then show ?case by (simp add: runStore_def createMessageStore_def)
next
  case (snoc op ops)
  then show ?case by (simp add: runStore_snoc distinct_listeners_applyStoreOp)
qed

lemma map_of_fold_update:
  "map_of (fold (\<lambda>m. AList.update (f m) m) ms al) i =
     (case filter (\<lambda>m. f m = i) ms of [] \<Rightarrow> map_of al i | x # xs \<Rightarrow> Some (last (x # xs)))"
proof (induction ms arbitrary: al)
  case Nil
  then show ?case by simp
next
  case (Cons m ms)
  show ?case
  proof (cases "f m = i")
    case True
    then show ?thesis
      by (cases "filter (\<lambda>m. f m = i) ms") (simp_all add: Cons.IH update_conv')
  next
    case False
    then show ?thesis
      by (cases "filter (\<lambda>m. f m = i) ms") (simp_all add: Cons.IH update_conv')
  qed
qed

lemma map_of_fold_update_in:
  assumes "i \<in> f ` set ms"
  shows "map_of (fold (\<lambda>m. AList.update (f m) m) ms al) i = Some (last (filter (\<lambda>m. f m = i) ms))"
proof -
  from assms have "filter (\<lambda>m. f m = i) ms \<noteq> []"
    by (auto simp: filter_empty_conv)
  then show ?thesis
    by (cases "filter (\<lambda>m. f m = i) ms") (simp_all add: map_of_fold_update)
qed

lemma map_of_fold_update_notin:
  assumes "i \<notin> f ` set ms"
  shows "map_of (fold (\<lambda>m. AList.update (f m) m) ms al) i = map_of al i"
proof -
  from assms have "filter (\<lambda>m. f m = i) ms = []"
    by (auto simp: filter_empty_conv)
  then show ?thesis
    by (simp add: map_of_fold_update)
qed

lemma one_entry_per_key:
  "distinct (map fst al) \<Longrightarrow> k \<in> fst ` set al \<Longrightarrow> length (filter (\<lambda>e. fst e = k) al) = 1"
proof (induction al)
  case Nil
  then show ?case by simp
next
  case (Cons e al)
  show ?case
  proof (cases "fst e = k")
    case True
    with Cons.prems have "k \<notin> fst ` set al"
      by simp
    then have "filter (\<lambda>e. fst e = k) al = []"
      by (force simp: filter_empty_conv)
    with True show ?thesis by simp
  next
    case False
    with Cons show ?thesis by auto
  qed
qed

lemma keys_are_ids_fold:
  "\<forall>e \<in> set al. f (snd e) = fst e \<Longrightarrow>
   \<forall>e \<in> set (fold (\<lambda>m. AList.update (f m) m) ms al). f (snd e) = fst e"
proof (induction ms arbitrary: al)
  case Nil
  then show ?case by simp
next
  case (Cons m ms)
  have "\<forall>e \<in> set (AList.update (f m) m al). f (snd e) = fst e"
    using Cons.prems by (induction al) auto
  from Cons.IH [OF this] show ?case by simp
qed

lemma notified_addMessages:
  "notified (addMessages ms s) =
     notified s @ map (\<lambda>l. (l, getMessages (addMessages ms s))) (store_listeners s)"
  by (simp add: addMessages_def notifyListeners_def getMessages_def Let_def)

text \<open>
  C5. Let \<open>addMessages msgs\<close> run on the store that any sequence of operations has
  produced. Afterwards the keys of the store are distinct and are the old keys and the ids
  of the batch; every id of the batch has exactly one entry, and it holds the last message
  of the batch with that id; entries of other ids are untouched; on a new store the ids of
  \<open>getMessages\<close> are the distinct ids of the batch. The call appends to the trace of
  notifications exactly one call per subscribed listener (the listeners are distinct), each
  carrying the full snapshot \<open>getMessages\<close> of the store after the whole batch.
\<close>

theorem addMessages_one_entry_per_id_one_notification:
  "distinct (map fst (messages (addMessages msgs (runStore ops))))
   \<and> set (map fst (messages (addMessages msgs (runStore ops))))
       = set (map fst (messages (runStore ops))) \<union> set (map msg_id msgs)
   \<and> (i \<in> set (map msg_id msgs) \<longrightarrow>
        length (filter (\<lambda>e. fst e = i) (messages (addMessages msgs (runStore ops)))) = 1
        \<and> getMessage i (addMessages msgs (runStore ops))
            = Some (last (filter (\<lambda>m. msg_id m = i) msgs)))
   \<and> (j \<notin> set (map msg_id msgs) \<longrightarrow>
        getMessage j (addMessages msgs (runStore ops)) = getMessage j (runStore ops))
   \<and> map msg_id (getMessages (addMessages msgs createMessageStore)) = firstSeen (map msg_id msgs)
   \<and> notified (addMessages msgs (runStore ops))
       = notified (runStore ops)
         @ map (\<lambda>l. (l, getMessages (addMessages msgs (runStore ops))))
             (store_listeners (runStore ops))
   \<and> distinct (store_listeners (runStore ops))"
proof -
  let ?s = "runStore ops"
  let ?al = "fold (\<lambda>m. AList.update (msg_id m) m) msgs (messages ?s)"
  have msgs': "messages (addMessages msgs s) = fold (\<lambda>m. AList.update (msg_id m) m) msgs (messages s)"
    for s
    by (simp add: addMessages_def messages_notifyListeners)
  have d0: "distinct (map fst (messages ?s))"
    by (simp add: keys_runStore distinct_firstSeen)
  have keys: "map fst ?al = firstSeen (map fst (messages ?s) @ map msg_id msgs)"
    using d0 by (rule keys_fold_update)
  have c1: "distinct (map fst ?al)"
    by (simp only: keys distinct_firstSeen)
  have c2: "set (map fst ?al) = set (map fst (messages ?s)) \<union> set (map msg_id msgs)"
    by (simp only: keys set_firstSeen set_append)
  have c3: "length (filter (\<lambda>e. fst e = i) ?al) = 1
            \<and> map_of ?al i = Some (last (filter (\<lambda>m. msg_id m = i) msgs))"
    if "i \<in> set (map msg_id msgs)"
  proof
    from that c2 have "i \<in> fst ` set ?al" by simp
    with c1 show "length (filter (\<lambda>e. fst e = i) ?al) = 1"
      by (rule one_entry_per_key)
    from that show "map_of ?al i = Some (last (filter (\<lambda>m. msg_id m = i) msgs))"
      by (simp add: map_of_fold_update_in)
  qed
  have c4: "map_of ?al j = map_of (messages ?s) j" if "j \<notin> set (map msg_id msgs)"
    using that by (simp add: map_of_fold_update_notin)
  have c5: "map msg_id (getMessages (addMessages msgs createMessageStore))
            = firstSeen (map msg_id msgs)"
  proof -
    let ?bl = "fold (\<lambda>m. AList.update (msg_id m) m) msgs []"
    have "\<forall>e \<in> set ?bl. msg_id (snd e) = fst e"
      by (rule keys_are_ids_fold) simp
    then have "map msg_id (map snd ?bl) = map fst ?bl"
      by simp
    moreover have "map fst ?bl = firstSeen (map msg_id msgs)"
      using keys_fold_update [of "[]" msg_id msgs] by simp
    ultimately show ?thesis
      by (simp add: getMessages_def msgs' createMessageStore_def)
  qed
  show ?thesis
    using c1 c2 c3 c4 c5 distinct_listeners_runStore [of ops]
      notified_addMessages [of msgs ?s]
    by (simp add: msgs' getMessage_def)
qed

lemmas store_defs = runStore_def createMessageStore_def addMessage_def addMessages_def
  updateMessage_def removeMessage_def clear_def subscribeStore_def unsubscribeStore_def
  notifyListeners_def getMessages_def getMessage_def Let_def

lemma demo_addMessages:
  "getMessages (addMessages demoBatch (runStore demoOps))
     = [demoMessage ''a'' ''second'', demoMessage ''c'' ''kept'', demoMessage ''b'' ''only'']"
  "notified (addMessages demoBatch (runStore demoOps))
     = [(1, [demoMessage ''a'' ''old'']),
        (1, [demoMessage ''a'' ''old'', demoMessage ''c'' ''kept'']),
        (1, [demoMessage ''a'' ''second'', demoMessage ''c'' ''kept'', demoMessage ''b'' ''only''])]"
  by (simp_all add: demoOps_def demoBatch_def store_defs demoMessage_def)

theorem addMessages_one_entry_per_id_one_notification_witness:
  "''a'' \<in> set (map msg_id demoBatch)
   \<and> ''c'' \<notin> set (map msg_id demoBatch)
   \<and> length (filter (\<lambda>e. fst e = ''a'') (messages (addMessages demoBatch (runStore demoOps)))) = 1
   \<and> getMessage ''a'' (addMessages demoBatch (runStore demoOps))
       = Some (last (filter (\<lambda>m. msg_id m = ''a'') demoBatch))
   \<and> getMessage ''c'' (addMessages demoBatch (runStore demoOps))
       = getMessage ''c'' (runStore demoOps)"
proof -
  have in_batch: "''a'' \<in> set (map msg_id demoBatch)"
    by (simp add: demoBatch_def demoMessage_def)
  have not_in_batch: "''c'' \<notin> set (map msg_id demoBatch)"
    by (simp add: demoBatch_def demoMessage_def)
  from addMessages_one_entry_per_id_one_notification [of demoBatch demoOps "''a''" "''c''"]
    in_batch not_in_batch
  show ?thesis
    by blast
qed

lemma update_in_place:
  "k \<in> fst ` set al \<Longrightarrow>
   \<exists>n < length al. fst (al ! n) = k \<and> (\<forall>p < n. fst (al ! p) \<noteq> k)
      \<and> AList.update k v al = al[n := (k, v)]"
proof (induction al)
  case Nil
  then show ?case by simp
next
  case (Cons e al)
  show ?case
  proof (cases "fst e = k")
    case True
    then have "fst ((e # al) ! 0) = k \<and> (\<forall>p < 0. fst ((e # al) ! p) \<noteq> k)
               \<and> AList.update k v (e # al) = (e # al)[0 := (k, v)]"
      by simp
    then show ?thesis by blast
  next
    case False
    with Cons.prems have "k \<in> fst ` set al" by auto
    from Cons.IH [OF this] obtain n where n: "n < length al" "fst (al ! n) = k"
      "\<forall>p < n. fst (al ! p) \<noteq> k" "AList.update k v al = al[n := (k, v)]"
      by blast
    have "\<forall>p < Suc n. fst ((e # al) ! p) \<noteq> k"
      using False n(3) by (auto simp: nth_Cons split: nat.splits)
    with n False have "Suc n < length (e # al) \<and> fst ((e # al) ! Suc n) = k
        \<and> (\<forall>p < Suc n. fst ((e # al) ! p) \<noteq> k)
        \<and> AList.update k v (e # al) = (e # al)[Suc n := (k, v)]"
      by simp
    then show ?thesis by blast
  qed
qed

lemma update_new_key: "k \<notin> fst ` set al \<Longrightarrow> AList.update k v al = al @ [(k, v)]"
  by (induction al) auto

lemma values_by_key:
  "distinct (map fst al) \<Longrightarrow> map Some (map snd al) = map (map_of al) (map fst al)"
proof (induction al)
  case Nil
  then show ?case by simp
next
  case (Cons e al)
  then have "fst e \<notin> set (map fst al)"
    by simp
  then have "\<forall>k \<in> set (map fst al). k \<noteq> fst e"
    by blast
  then have "map (map_of (e # al)) (map fst al) = map (map_of al) (map fst al)"
    by (cases e) (simp add: )
  with Cons show ?case
    by (cases e) simp
qed

text \<open>
  C6. After any sequence of store operations the entries stand in the order in which their
  ids were first added (counting, for an id that was removed or cleared, from its next
  addition), and \<open>getMessages\<close> returns the stored message of each of these ids in
  that order. Adding a message whose id the store holds replaces the stored message at the
  position where it stands and moves nothing; adding a message with a new id appends it.
\<close>

theorem getMessages_first_seen_order:
  "map fst (messages (runStore ops)) = firstSeen (liveIds ops)
   \<and> map Some (getMessages (runStore ops))
       = map (\<lambda>i. getMessage i (runStore ops)) (firstSeen (liveIds ops))
   \<and> (msg_id m \<in> set (firstSeen (liveIds ops)) \<longrightarrow>
        map fst (messages (addMessage m (runStore ops))) = firstSeen (liveIds ops)
        \<and> getMessage (msg_id m) (addMessage m (runStore ops)) = Some m
        \<and> (\<exists>n < length (getMessages (runStore ops)).
              firstSeen (liveIds ops) ! n = msg_id m
              \<and> getMessages (addMessage m (runStore ops)) = (getMessages (runStore ops))[n := m]))
   \<and> (msg_id m2 \<notin> set (firstSeen (liveIds ops)) \<longrightarrow>
        getMessages (addMessage m2 (runStore ops)) = getMessages (runStore ops) @ [m2])"
proof -
  let ?s = "runStore ops"
  have keys: "map fst (messages ?s) = firstSeen (liveIds ops)"
    by (rule keys_runStore)
  have d: "distinct (map fst (messages ?s))"
    by (simp add: keys distinct_firstSeen)
  have order: "map Some (getMessages ?s) = map (\<lambda>i. getMessage i ?s) (firstSeen (liveIds ops))"
    using values_by_key [OF d] by (simp add: getMessages_def getMessage_def keys)
  have msgs': "messages (addMessage x ?s) = AList.update (msg_id x) x (messages ?s)" for x
    by (simp add: addMessage_def messages_notifyListeners)
  have overwrite: "map fst (messages (addMessage m ?s)) = firstSeen (liveIds ops)
        \<and> getMessage (msg_id m) (addMessage m ?s) = Some m
        \<and> (\<exists>n < length (getMessages ?s).
              firstSeen (liveIds ops) ! n = msg_id m
              \<and> getMessages (addMessage m ?s) = (getMessages ?s)[n := m])"
    if seen: "msg_id m \<in> set (firstSeen (liveIds ops))"
  proof -
    from seen keys have mem: "msg_id m \<in> set (map fst (messages ?s))"
      by simp
    then have k1: "map fst (messages (addMessage m ?s)) = firstSeen (liveIds ops)"
      by (simp only: msgs' keys_update if_True keys)
    have k2: "getMessage (msg_id m) (addMessage m ?s) = Some m"
      by (simp add: getMessage_def msgs' update_conv')
    from mem have "msg_id m \<in> fst ` set (messages ?s)"
      by simp
    from update_in_place [OF this, of m] obtain n where n: "n < length (messages ?s)"
      "fst (messages ?s ! n) = msg_id m"
      "AList.update (msg_id m) m (messages ?s) = (messages ?s)[n := (msg_id m, m)]"
      by blast
    from n(1,2) have "map fst (messages ?s) ! n = msg_id m"
      by simp
    then have k3: "firstSeen (liveIds ops) ! n = msg_id m"
      by (simp only: keys)
    have k4: "getMessages (addMessage m ?s) = (getMessages ?s)[n := m]"
      by (simp add: getMessages_def msgs' n(3) map_update)
    from n(1) have k5: "n < length (getMessages ?s)"
      by (simp add: getMessages_def)
    from k1 k2 k3 k4 k5 show ?thesis
      by blast
  qed
  have fresh: "getMessages (addMessage m2 ?s) = getMessages ?s @ [m2]"
    if new: "msg_id m2 \<notin> set (firstSeen (liveIds ops))"
  proof -
    from new keys have "msg_id m2 \<notin> fst ` set (messages ?s)"
      by (metis set_map)
    then have "AList.update (msg_id m2) m2 (messages ?s) = messages ?s @ [(msg_id m2, m2)]"
      by (rule update_new_key)
    then show ?thesis
      by (simp add: getMessages_def msgs')
  qed
  from keys order overwrite fresh show ?thesis
    by blast
qed

lemma demo_remove_then_add:
  "liveIds demoHistory = [''b'', ''a'']"
  "getMessages (runStore demoHistory) = [demoMessage ''b'' ''two'', demoMessage ''a'' ''three'']"
  "getMessages (addMessage (demoMessage ''b'' ''four'') (runStore demoHistory))
     = [demoMessage ''b'' ''four'', demoMessage ''a'' ''three'']"
  by (simp_all add: demoHistory_def liveIds_def store_defs demoMessage_def)

theorem getMessages_first_seen_order_witness:
  "msg_id (demoMessage ''b'' ''four'') \<in> set (firstSeen (liveIds demoHistory))
   \<and> msg_id (demoMessage ''z'' ''five'') \<notin> set (firstSeen (liveIds demoHistory))
   \<and> map fst (messages (addMessage (demoMessage ''b'' ''four'') (runStore demoHistory)))
       = firstSeen (liveIds demoHistory)
   \<and> getMessage (msg_id (demoMessage ''b'' ''four''))
         (addMessage (demoMessage ''b'' ''four'') (runStore demoHistory))
       = Some (demoMessage ''b'' ''four'')
   \<and> getMessages (addMessage (demoMessage ''z'' ''five'') (runStore demoHistory))
       = getMessages (runStore demoHistory) @ [demoMessage ''z'' ''five'']"
proof -
  have seen: "msg_id (demoMessage ''b'' ''four'') \<in> set (firstSeen (liveIds demoHistory))"
    by (simp add: demo_remove_then_add(1) firstSeen_def demoMessage_def)
  have new: "msg_id (demoMessage ''z'' ''five'') \<notin> set (firstSeen (liveIds demoHistory))"
    by (simp add: demo_remove_then_add(1) firstSeen_def demoMessage_def)
  from getMessages_first_seen_order
    [of demoHistory "demoMessage ''b'' ''four''" "demoMessage ''z'' ''five''"] seen new
  show ?thesis
    by blast
qed

subsection \<open>The WebSocket transport\<close>

lemmas transport_defs = happenAll_def happen.simps createWebSocketTransport_def demoConfig_def
  orDefault_def reconnectOption_def connect_def setStatus_def onopen_def onclose_def onerror_def
  handleDisconnect_def scheduleReconnect_def reconnectCallback_def clearReconnectTimer_def
  startHeartbeat_def stopHeartbeat_def cancelTimer_def setReadyState_def onStatusChange_def
  setAdd_def Let_def

lemma exhausted_run:
  "status exhaustedTransport = Error"
  "reconnectAttempts exhaustedTransport = 2"
  "maxAttempts (config exhaustedTransport) = 2"
  "enabled (config exhaustedTransport)"
  "map snd (statusCalls exhaustedTransport)
     = [Connecting, Connected, Reconnecting, Connecting, Reconnecting, Connecting, Error]"
  "timeouts exhaustedTransport = [(1000, False), (2000, False)]"
  by (simp_all add: exhaustedTransport_def transport_defs)

lemma connected_run:
  "status connectedTransport = Connected"
  "ws connectedTransport = Some 0"
  "map readyState (sockets connectedTransport) = [OPEN]"
  "sessionSubscribers connectedTransport = []"
  "sent connectedTransport = []"
  by (simp_all add: connectedTransport_def transport_defs)

text \<open>
  C9. When the status is \<open>connected\<close> or \<open>connecting\<close>, \<open>connect()\<close> returns at once
  and leaves the transport exactly as it was: same status, no status listener called, no
  socket created, the same current socket.
\<close>

theorem connect_is_noop_when_connected_or_connecting:
  assumes "status t = Connected \<or> status t = Connecting"
  shows "connect ok t = (Resolved, t)
         \<and> getStatus (snd (connect ok t)) = getStatus t
         \<and> statusCalls (snd (connect ok t)) = statusCalls t
         \<and> sockets (snd (connect ok t)) = sockets t
         \<and> ws (snd (connect ok t)) = ws t"
  using assms by (auto simp: connect_def)

theorem connect_is_noop_when_connected_or_connecting_witness:
  "(status connectedTransport = Connected \<or> status connectedTransport = Connecting)
   \<and> connect True connectedTransport = (Resolved, connectedTransport)
   \<and> sockets (snd (connect True connectedTransport)) = sockets connectedTransport
   \<and> statusCalls (snd (connect True connectedTransport)) = statusCalls connectedTransport"
proof -
  have connected: "status connectedTransport = Connected \<or> status connectedTransport = Connecting"
    by (simp add: connected_run)
  from connect_is_noop_when_connected_or_connecting [OF connected, of True] connected
  show ?thesis
    by blast
qed

lemma timeouts_clearReconnectTimer_length:
  "length (timeouts (clearReconnectTimer t)) = length (timeouts t)"
  by (simp add: clearReconnectTimer_def cancelTimer_def split: option.splits)

text \<open>
  C1, as stated, fails. On the transport whose two reconnect attempts were used up (status
  \<open>error\<close>, counter 2 of 2), a manual \<open>connect()\<close> leaves the counter at 2; when the
  new socket then closes uncleanly the status goes straight back to \<open>error\<close> and no retry
  is scheduled.
\<close>

theorem connect_after_exhaustion_counterexample:
  "status exhaustedTransport = Error
   \<and> int (reconnectAttempts exhaustedTransport) \<ge> maxAttempts (config exhaustedTransport)
   \<and> reconnectAttempts (snd (connect True exhaustedTransport)) = 2
   \<and> reconnectAttempts (snd (connect True exhaustedTransport)) \<noteq> 0
   \<and> status (happen (SocketClose 3 False) (snd (connect True exhaustedTransport))) = Error
   \<and> timeouts (happen (SocketClose 3 False) (snd (connect True exhaustedTransport)))
       = timeouts exhaustedTransport"
  by (simp add: exhaustedTransport_def transport_defs)

lemma reconnectAttempts_setStatus: "reconnectAttempts (setStatus st t) = reconnectAttempts t"
  by (simp add: setStatus_def)

lemma reconnectAttempts_connect: "reconnectAttempts (snd (connect ok t)) = reconnectAttempts t"
  by (simp add: connect_def Let_def reconnectAttempts_setStatus)

lemma config_setStatus: "config (setStatus st t) = config t"
  by (simp add: setStatus_def)

lemma config_connect: "config (snd (connect ok t)) = config t"
  by (simp add: connect_def Let_def config_setStatus)

lemma reconnectAttempts_stopHeartbeat: "reconnectAttempts (stopHeartbeat t) = reconnectAttempts t"
  by (simp add: stopHeartbeat_def split: option.splits)

lemma config_stopHeartbeat: "config (stopHeartbeat t) = config t"
  by (simp add: stopHeartbeat_def split: option.splits)

lemma timeouts_stopHeartbeat: "timeouts (stopHeartbeat t) = timeouts t"
  by (simp add: stopHeartbeat_def split: option.splits)

lemma timeouts_setStatus: "timeouts (setStatus st t) = timeouts t"
  by (simp add: setStatus_def)

lemma status_setStatus: "status (setStatus st t) = st"
  by (simp add: setStatus_def)

lemma reconnectAttempts_onopen: "reconnectAttempts (onopen t) = 0"
  by (simp add: onopen_def startHeartbeat_def Let_def reconnectAttempts_stopHeartbeat
      reconnectAttempts_setStatus)

text \<open>
  C1, amended. After the attempts are exhausted (status \<open>error\<close>, counter at or above
  \<open>maxAttempts\<close>) a manual \<open>connect()\<close> leaves the counter unchanged and moves to
  \<open>connecting\<close>; the counter is reset to 0 when the new socket opens (\<open>onopen\<close>, status
  \<open>connected\<close>); if instead that socket closes uncleanly, with reconnection enabled, the
  status is \<open>error\<close> again and no timeout is set.
\<close>

theorem connect_keeps_counter_until_open:
  assumes "status t = Error"
    and "int (reconnectAttempts t) \<ge> maxAttempts (config t)"
  shows "reconnectAttempts (snd (connect ok t)) = reconnectAttempts t
         \<and> status (snd (connect True t)) = Connecting
         \<and> reconnectAttempts (onopen (snd (connect True t))) = 0
         \<and> status (onopen (snd (connect True t))) = Connected
         \<and> (enabled (config t) \<longrightarrow>
              status (onclose False (snd (connect True t))) = Error
              \<and> timeouts (onclose False (snd (connect True t))) = timeouts (snd (connect True t)))"
proof -
  let ?t' = "snd (connect True t)"
  have a: "reconnectAttempts (snd (connect ok t)) = reconnectAttempts t"
    by (rule reconnectAttempts_connect)
  have b: "status ?t' = Connecting"
    using assms(1) by (simp add: connect_def Let_def status_setStatus)
  have c: "reconnectAttempts (onopen ?t') = 0"
    by (rule reconnectAttempts_onopen)
  have d: "status (onopen ?t') = Connected"
    by (simp add: onopen_def startHeartbeat_def Let_def stopHeartbeat_def status_setStatus
        split: option.splits)
  have e: "status (onclose False ?t') = Error
           \<and> timeouts (onclose False ?t') = timeouts ?t'" if en: "enabled (config t)"
  proof -
    let ?u = "stopHeartbeat ?t'"
    have "int (reconnectAttempts ?u) \<ge> maxAttempts (config ?u)"
      using assms(2)
      by (simp add: reconnectAttempts_stopHeartbeat config_stopHeartbeat
          reconnectAttempts_connect config_connect)
    moreover have "enabled (config ?u)"
      using en by (simp add: config_stopHeartbeat config_connect)
    ultimately have "handleDisconnect ?u = setStatus Error ?u"
      by (simp add: handleDisconnect_def)
    then show ?thesis
      by (simp add: onclose_def Let_def status_setStatus timeouts_setStatus timeouts_stopHeartbeat)
  qed
  from a b c d e show ?thesis
    by blast
qed

theorem connect_keeps_counter_until_open_witness:
  "status exhaustedTransport = Error
   \<and> int (reconnectAttempts exhaustedTransport) \<ge> maxAttempts (config exhaustedTransport)
   \<and> enabled (config exhaustedTransport)
   \<and> reconnectAttempts (snd (connect True exhaustedTransport))
       = reconnectAttempts exhaustedTransport
   \<and> reconnectAttempts (onopen (snd (connect True exhaustedTransport))) = 0
   \<and> status (onclose False (snd (connect True exhaustedTransport))) = Error"
proof -
  have err: "status exhaustedTransport = Error"
    by (simp add: exhausted_run)
  have exhausted: "int (reconnectAttempts exhaustedTransport)
                   \<ge> maxAttempts (config exhaustedTransport)"
    by (simp add: exhausted_run)
  have en: "enabled (config exhaustedTransport)"
    by (simp add: exhausted_run)
  from connect_keeps_counter_until_open [OF err exhausted, of True] err exhausted en
  show ?thesis
    by blast
qed

lemma sendRaw_cases:
  "sendRaw data t = (if socketOpen t then t\<lparr>sent := sent t @ [(the (ws t), data)]\<rparr> else t)"
  by (auto simp: sendRaw_def socketOpen_def split: option.splits)

lemma socketOpen_cong:
  "ws t' = ws t \<Longrightarrow> sockets t' = sockets t \<Longrightarrow> socketOpen t' = socketOpen t"
  by (simp add: socketOpen_def split: option.splits)

lemma sendRaw_frame:
  "ws (sendRaw data t) = ws t" "sockets (sendRaw data t) = sockets t"
  "sessionSubscribers (sendRaw data t) = sessionSubscribers t"
  by (simp_all add: sendRaw_cases)

lemma socketOpen_sendRaw: "socketOpen (sendRaw data t) = socketOpen t"
  by (rule socketOpen_cong) (simp_all add: sendRaw_frame)

lemma sent_sendRaw:
  "sent (sendRaw data t) = (if socketOpen t then sent t @ [(the (ws t), data)] else sent t)"
  by (simp add: sendRaw_cases)

lemma socketOpen_sessionSubscribers_update:
  "socketOpen (t\<lparr>sessionSubscribers := ss\<rparr>) = socketOpen t"
  by (rule socketOpen_cong) simp_all

lemma in_keys_iff: "k \<in> fst ` set al \<longleftrightarrow> map_of al k \<noteq> None"
  by (simp add: map_of_eq_None_iff)

lemma subscribe_effect:
  "socketOpen (subscribe sid c t) = socketOpen t"
  "ws (subscribe sid c t) = ws t"
  "map_of (sessionSubscribers (subscribe sid c t)) sid
     = Some (setAdd c (case map_of (sessionSubscribers t) sid of None \<Rightarrow> [] | Some xs \<Rightarrow> xs))"
  "sent (subscribe sid c t)
     = (if sid \<notin> fst ` set (sessionSubscribers t) \<and> socketOpen t
        then sent t @ [(the (ws t), subscribeFrame sid)] else sent t)"
  by (auto simp: subscribe_def Let_def sendRaw_frame sent_sendRaw update_conv' in_keys_iff
      socketOpen_sessionSubscribers_update socketOpen_sendRaw
      split: option.splits)

lemma unsubscribe_effect:
  assumes "map_of (sessionSubscribers t) sid = Some subs"
  shows "socketOpen (unsubscribe sid c t) = socketOpen t"
    and "ws (unsubscribe sid c t) = ws t"
    and "map_of (sessionSubscribers (unsubscribe sid c t)) sid
          = (if removeAll c subs = [] then None else Some (removeAll c subs))"
    and "sent (unsubscribe sid c t)
          = (if removeAll c subs = [] \<and> socketOpen t
             then sent t @ [(the (ws t), unsubscribeFrame sid)] else sent t)"
  using assms
  by (auto simp: unsubscribe_def Let_def sendRaw_frame sent_sendRaw update_conv' delete_conv'
      socketOpen_sessionSubscribers_update socketOpen_sendRaw)

lemma framesSent_append: "sent t' = sent t @ fs \<Longrightarrow> framesSent t t' = map snd fs"
  by (simp add: framesSent_def)

lemma framesSent_same: "sent t' = sent t \<Longrightarrow> framesSent t t' = []"
  by (simp add: framesSent_def)

text \<open>
  C8, as stated, fails. On a transport that has not connected, the first \<open>subscribe\<close> for
  a session sends no frame and removing that callback sends none; connecting afterwards does
  not send the subscription either.
\<close>

theorem subscribe_without_open_socket_counterexample:
  "sessionSubscribers (createWebSocketTransport (demoConfig 2)) = []
   \<and> framesSent (createWebSocketTransport (demoConfig 2))
        (subscribe ''s1'' 1 (createWebSocketTransport (demoConfig 2))) = []
   \<and> framesSent (subscribe ''s1'' 1 (createWebSocketTransport (demoConfig 2)))
        (unsubscribe ''s1'' 1 (subscribe ''s1'' 1 (createWebSocketTransport (demoConfig 2)))) = []
   \<and> sent (happenAll [Connect True, SocketOpen 0]
        (subscribe ''s1'' 1 (createWebSocketTransport (demoConfig 2)))) = []"
  by (simp add: framesSent_def subscribe_def unsubscribe_def sendRaw_def setAdd_def
      transport_defs)

text \<open>
  C8, amended. Let a session have no callbacks and let two different callbacks be added and
  then removed. While the transport's socket is open, adding the first sends exactly the
  frame \<open>{type: 'subscribe', sessionId}\<close>, adding the second sends nothing, removing one
  of the two sends nothing, and removing the last sends exactly
  \<open>{type: 'unsubscribe', sessionId}\<close>. While there is no open socket, none of the four
  calls sends a frame.
\<close>

theorem subscribe_frames_while_socket_open:
  assumes first: "sid \<notin> fst ` set (sessionSubscribers t)"
    and two: "c1 \<noteq> c2"
  shows "framesSent t (subscribe sid c1 t) = (if socketOpen t then [subscribeFrame sid] else [])
    \<and> framesSent (subscribe sid c1 t) (subscribe sid c2 (subscribe sid c1 t)) = []
    \<and> framesSent (subscribe sid c2 (subscribe sid c1 t))
         (unsubscribe sid c1 (subscribe sid c2 (subscribe sid c1 t))) = []
    \<and> framesSent (unsubscribe sid c1 (subscribe sid c2 (subscribe sid c1 t)))
         (unsubscribe sid c2 (unsubscribe sid c1 (subscribe sid c2 (subscribe sid c1 t))))
       = (if socketOpen t then [unsubscribeFrame sid] else [])"
proof -
  let ?t1 = "subscribe sid c1 t"
  let ?t2 = "subscribe sid c2 ?t1"
  let ?t3 = "unsubscribe sid c1 ?t2"
  let ?t4 = "unsubscribe sid c2 ?t3"
  from first have none: "map_of (sessionSubscribers t) sid = None"
    by (simp add: map_of_eq_None_iff)
  have s1: "map_of (sessionSubscribers ?t1) sid = Some [c1]"
    by (simp add: subscribe_effect(3) none setAdd_def)
  have f1: "framesSent t ?t1 = (if socketOpen t then [subscribeFrame sid] else [])"
    using first by (simp add: framesSent_def subscribe_effect(4))
  have in1: "sid \<in> fst ` set (sessionSubscribers ?t1)"
    using s1 by (simp add: in_keys_iff)
  have "map_of (sessionSubscribers ?t2) sid
          = Some (setAdd c2 (case map_of (sessionSubscribers ?t1) sid of
                               None \<Rightarrow> [] | Some xs \<Rightarrow> xs))"
    by (rule subscribe_effect(3))
  then have s2: "map_of (sessionSubscribers ?t2) sid = Some [c1, c2]"
    using two by (simp add: s1 setAdd_def)
  have f2: "framesSent ?t1 ?t2 = []"
    using in1 by (simp add: framesSent_def subscribe_effect(4))
  have s3: "map_of (sessionSubscribers ?t3) sid = Some [c2]"
    using two by (simp add: unsubscribe_effect(3) [OF s2])
  have f3: "framesSent ?t2 ?t3 = []"
    using two by (simp add: framesSent_def unsubscribe_effect(4) [OF s2])
  have open3: "socketOpen ?t3 = socketOpen t"
    by (simp add: unsubscribe_effect(1) [OF s2] subscribe_effect(1))
  have f4: "framesSent ?t3 ?t4 = (if socketOpen t then [unsubscribeFrame sid] else [])"
    by (simp add: framesSent_def unsubscribe_effect(4) [OF s3] open3)
  from f1 f2 f3 f4 show ?thesis
    by blast
qed

theorem subscribe_frames_while_socket_open_witness:
  "''s1'' \<notin> fst ` set (sessionSubscribers connectedTransport)
   \<and> (1::nat) \<noteq> 2
   \<and> socketOpen connectedTransport
   \<and> framesSent connectedTransport (subscribe ''s1'' 1 connectedTransport)
       = (if socketOpen connectedTransport then [subscribeFrame ''s1''] else [])
   \<and> framesSent (subscribe ''s1'' 1 connectedTransport)
        (subscribe ''s1'' 2 (subscribe ''s1'' 1 connectedTransport)) = []
   \<and> framesSent (subscribe ''s1'' 2 (subscribe ''s1'' 1 connectedTransport))
         (unsubscribe ''s1'' 1 (subscribe ''s1'' 2 (subscribe ''s1'' 1 connectedTransport))) = []
   \<and> framesSent (unsubscribe ''s1'' 1 (subscribe ''s1'' 2 (subscribe ''s1'' 1 connectedTransport)))
         (unsubscribe ''s1'' 2 (unsubscribe ''s1'' 1
            (subscribe ''s1'' 2 (subscribe ''s1'' 1 connectedTransport))))
       = (if socketOpen connectedTransport then [unsubscribeFrame ''s1''] else [])"
proof -
  have first: "''s1'' \<notin> fst ` set (sessionSubscribers connectedTransport)"
    by (simp add: connected_run)
  have two: "(1::nat) \<noteq> 2"
    by simp
  have op: "socketOpen connectedTransport"
    by (simp add: socketOpen_def connectedTransport_def transport_defs)
  from subscribe_frames_while_socket_open [OF first two] first two op
  show ?thesis
    by blast
qed

lemma demo_subscribe_frames:
  "sent (unsubscribe ''s1'' 2 (unsubscribe ''s1'' 1
           (subscribe ''s1'' 2 (subscribe ''s1'' 1 connectedTransport))))
     = [(0, JObj [(''type'', JStr ''subscribe''), (''sessionId'', JStr ''s1'')]),
        (0, JObj [(''type'', JStr ''unsubscribe''), (''sessionId'', JStr ''s1'')])]"
  by (simp add: connectedTransport_def subscribe_def unsubscribe_def sendRaw_def setAdd_def
      subscribeFrame_def unsubscribeFrame_def transport_defs)

subsection \<open>The default normalizer\<close>


lemma jsString_raises_iff: "(\<exists>e. jsString v = Inl e) \<longleftrightarrow> \<not> convertible v"
  "(\<exists>e. joinElements vs = Inl e) \<longleftrightarrow> \<not> list_all convertible vs"
proof (induction v and vs rule: jsString_joinElements.induct)
  case (9 x xs)
  then show ?case
    by (cases "isNullish x"; cases "xs = []") (auto simp: isNullish_def split: sum.splits)
qed auto











lemma demo_normalize:
  "normalize ''2024-05-01T10:00:00.000Z'' demoRawEvent =
     Inr (Some \<lparr>ev_type = ''message'', ev_sessionId = ''42'', ev_payload = JStr ''hello'',
            ev_sequence = Some 7, ev_timestamp = ''2024-05-01T10:00:00.000Z'',
            ev_raw = demoRawEvent\<rparr>)"
  by (simp add: normalize_def demoRawEvent_def jsOr_def jsCoalesce_def isNullish_def showInt_def
      showNat.simps)

subsection \<open>The timeline builder\<close>

lemma dedup_first_kept:
  assumes "strategy rule = First"
    and "\<forall>item \<in> set items. getFieldValue item (dedup_field rule) = JUndefined"
  shows "dedupLoop items [rule] [(''undefined'', x)] = Inr [(''undefined'', x)]"
  using assms by (induction items) simp_all

lemma dedup_last_kept:
  assumes "strategy rule = Last"
    and "\<forall>item \<in> set items. getFieldValue item (dedup_field rule) = JUndefined"
  shows "dedupLoop items [rule] [(''undefined'', x)] = Inr [(''undefined'', last (x # items))]"
  using assms by (induction items arbitrary: x) simp_all

lemma dedup_all_undefined:
  assumes "\<forall>item \<in> set items. getFieldValue item (dedup_field rule) = JUndefined"
  shows "dedupLoop items [rule] [] =
           Inr (if items = [] then []
                else [(''undefined'', if strategy rule = First then hd items else last items)])"
proof (cases items)
  case Nil
  then show ?thesis by simp
next
  case (Cons item rest)
  with assms have u: "getFieldValue item (dedup_field rule) = JUndefined"
    and r: "\<forall>item \<in> set rest. getFieldValue item (dedup_field rule) = JUndefined"
    by simp_all
  show ?thesis
  proof (cases "strategy rule")
    case First
    then show ?thesis
      using Cons u dedup_first_kept [OF First r, of item] by simp
  next
    case Last
    then show ?thesis
      using Cons u dedup_last_kept [OF Last r, of item] by simp
  qed
qed

lemma arraySort_short: "arraySort cmp [] = Inr []" "arraySort cmp [x] = Inr [x]"
  by simp_all

lemma showNat_digits: "set (showNat n) \<subseteq> set ''0123456789''"
proof (induction n rule: showNat.induct)
  case (1 n)
  have d: "''0123456789'' ! k \<in> set ''0123456789''" if "k < 10" for k
    using that by (intro nth_mem) simp
  show ?case
  proof (cases "n < 10")
    case True
    then show ?thesis
      using d [of n] by (subst showNat.simps) simp
  next
    case False
    have "n mod 10 < 10" by simp
    with False 1 d [of "n mod 10"] show ?thesis
      by (subst showNat.simps) simp
  qed
qed

lemma showNat_not_key: "k \<in> set keyofBaseMessage \<Longrightarrow> showNat n \<noteq> k"
proof
  assume k: "k \<in> set keyofBaseMessage" and eq: "showNat n = k"
  from k have "\<not> set k \<subseteq> set ''0123456789''"
    by (auto simp: keyofBaseMessage_def)
  with showNat_digits [of n] eq show False
    by simp
qed

lemma splitDot_key: "k \<in> set keyofBaseMessage \<Longrightarrow> splitDot k = [k]"
  by (auto simp: keyofBaseMessage_def)

lemma map_of_index_keys:
  "k \<in> set keyofBaseMessage \<Longrightarrow> map_of (zip (map showNat ns) vs) k = None"
proof -
  assume k: "k \<in> set keyofBaseMessage"
  have "k \<notin> set (map showNat ns)"
    using showNat_not_key [OF k] by auto
  then have "k \<notin> fst ` set (zip (map showNat ns) vs)"
    by (metis (no_types, lifting) image_iff in_set_zipE prod.collapse)
  then show ?thesis
    by (simp add: map_of_eq_None_iff)
qed

lemma getProp_array_key:
  "k \<in> set keyofBaseMessage \<Longrightarrow> getProp (JArr xs) k = JUndefined"
proof -
  assume k: "k \<in> set keyofBaseMessage"
  then have "k \<noteq> ''length''"
    by (auto simp: keyofBaseMessage_def)
  moreover have "filter (arrayIndex k) [0 ..< length xs] = []"
    using showNat_not_key [OF k] by (simp add: arrayIndex_def filter_empty_conv)
  ultimately show ?thesis
    by simp
qed

lemma getFieldValue_withItemType:
  assumes k: "k \<in> set keyofBaseMessage"
  shows "getFieldValue (withItemType t m) k = getFieldValue m k"
proof -
  from k have ne: "k \<noteq> ''itemType''"
    by (auto simp: keyofBaseMessage_def)
  have l: "getFieldValue (withItemType t m) k
           = (case map_of (ownProperties m) k of None \<Rightarrow> JUndefined | Some v \<Rightarrow> v)"
    using ne by (simp add: getFieldValue_def splitDot_key [OF k] withItemType_def isNullish_def
        update_conv')
  have r: "getFieldValue m k
           = (case map_of (ownProperties m) k of None \<Rightarrow> JUndefined | Some v \<Rightarrow> v)"
    by (cases m)
       (simp_all add: getFieldValue_def splitDot_key [OF k] isNullish_def
         map_of_index_keys [OF k] getProp_array_key [OF k] del: getProp.simps(2))
  from l r show ?thesis
    by simp
qed

text \<open>
  C10. Let \<open>build\<close> run with a single deduplication rule whose field (one of the keys of
  \<open>BaseMessage\<close>, as its type says) resolves to \<open>undefined\<close> on every message and
  event. Then every item is filed under the one key \<open>"undefined"\<close>, and at most one item
  survives: none for an empty input, otherwise the first item under strategy \<open>first\<close>
  and the last item under strategy \<open>last\<close>, which is all that \<open>build\<close> returns.
\<close>

theorem dedup_by_absent_field_keeps_one:
  assumes typed: "dedup_field rule \<in> set keyofBaseMessage"
    and single: "deduplicationRules params = Some [rule]"
    and absent: "\<forall>m \<in> set (tl_messages params) \<union> set (orDefault (tl_events params) []).
                   getFieldValue m (dedup_field rule) = JUndefined"
  shows "dedupLoop (allItems params) [rule] [] =
           Inr (if allItems params = [] then []
                else [(''undefined'', if strategy rule = First then hd (allItems params)
                                      else last (allItems params))])
         \<and> build lc params =
             Inr (if allItems params = [] then []
                  else [if strategy rule = First then hd (allItems params)
                        else last (allItems params)])"
proof -
  have tagged: "\<forall>item \<in> set (allItems params). getFieldValue item (dedup_field rule) = JUndefined"
    using absent by (auto simp: allItems_def getFieldValue_withItemType [OF typed])
  note seen = dedup_all_undefined [OF tagged]
  have "deduplicateItems (allItems params) [rule] =
          Inr (if allItems params = [] then []
               else [if strategy rule = First then hd (allItems params)
                     else last (allItems params)])"
    by (simp add: deduplicateItems_def seen)
  then have "build lc params =
             Inr (if allItems params = [] then []
                  else [if strategy rule = First then hd (allItems params)
                        else last (allItems params)])"
    by (simp add: build_def single orDefault_def)
  with seen show ?thesis
    by blast
qed

lemmas timeline_demo_defs = demoDedupParams_def demoParams_def demoItem_def bySequence_def
  allItems_def withItemType_def orDefault_def getFieldValue_def isNullish_def

theorem dedup_by_absent_field_keeps_one_witness:
  "''metadata'' \<in> set keyofBaseMessage
   \<and> deduplicationRules (demoDedupParams First)
       = Some [\<lparr>dedup_field = ''metadata'', strategy = First\<rparr>]
   \<and> list_all (\<lambda>m. getFieldValue m ''metadata'' = JUndefined)
        (tl_messages (demoDedupParams First) @ orDefault (tl_events (demoDedupParams First)) [])
   \<and> build codeUnitCompare (demoDedupParams First) = Inr [hd (allItems (demoDedupParams First))]
   \<and> build codeUnitCompare (demoDedupParams Last) = Inr [last (allItems (demoDedupParams Last))]"
proof -
  have typed: "dedup_field \<lparr>dedup_field = ''metadata'', strategy = st\<rparr> \<in> set keyofBaseMessage"
    for st
    by (simp add: keyofBaseMessage_def)
  have single: "deduplicationRules (demoDedupParams st)
       = Some [\<lparr>dedup_field = ''metadata'', strategy = st\<rparr>]" for st
    by (simp add: demoDedupParams_def)
  have absent: "\<forall>m \<in> set (tl_messages (demoDedupParams st))
                       \<union> set (orDefault (tl_events (demoDedupParams st)) []).
                   getFieldValue m (dedup_field \<lparr>dedup_field = ''metadata'', strategy = st\<rparr>)
                     = JUndefined" for st
    by (simp add: timeline_demo_defs)
  have nonempty: "allItems (demoDedupParams st) \<noteq> []" for st
    by (simp add: timeline_demo_defs)
  have "build codeUnitCompare (demoDedupParams First) = Inr [hd (allItems (demoDedupParams First))]"
    using dedup_by_absent_field_keeps_one [OF typed single absent, of First codeUnitCompare]
      nonempty [of First]
    by simp
  moreover have "build codeUnitCompare (demoDedupParams Last)
                 = Inr [last (allItems (demoDedupParams Last))]"
    using dedup_by_absent_field_keeps_one [OF typed single absent, of Last codeUnitCompare]
      nonempty [of Last]
    by simp
  moreover have "list_all (\<lambda>m. getFieldValue m ''metadata'' = JUndefined)
        (tl_messages (demoDedupParams First) @ orDefault (tl_events (demoDedupParams First)) [])"
    using absent [of First] by (simp add: list_all_iff)
  ultimately show ?thesis
    using typed [of First] single [of First] by simp
qed

lemma demo_dedup_absent_field:
  "build codeUnitCompare (demoDedupParams First)
     = Inr [withItemType ''message'' (demoItem ''a'' (JNum 3))]"
  "build codeUnitCompare (demoDedupParams Last)
     = Inr [withItemType ''message'' (demoItem ''c'' (JNum 2))]"
  by (simp_all add: build_def deduplicateItems_def timeline_demo_defs)





lemma compareItems_all_zero:
  assumes "\<forall>r \<in> set rules. ruleCompare lc r a b = Inr 0"
  shows "compareItems lc rules a b = Inr 0"
  using assms by (induction rules) simp_all













subsection \<open>The reconnect schedule\<close>

lemma cancelTimer_facts:
  "length (cancelTimer h ts) = length ts" "map fst (cancelTimer h ts) = map fst ts"
  by (simp_all add: cancelTimer_def map_update list_update_same_conv)

lemma stopHeartbeat_frame:
  "ws (stopHeartbeat t) = ws t" "sockets (stopHeartbeat t) = sockets t"
  "timeouts (stopHeartbeat t) = timeouts t" "status (stopHeartbeat t) = status t"
  "reconnectAttempts (stopHeartbeat t) = reconnectAttempts t"
  "config (stopHeartbeat t) = config t" "reconnectTimer (stopHeartbeat t) = reconnectTimer t"
  by (simp_all add: stopHeartbeat_def split: option.splits)

lemma setStatus_frame:
  "ws (setStatus st t) = ws t" "sockets (setStatus st t) = sockets t"
  "timeouts (setStatus st t) = timeouts t" "status (setStatus st t) = st"
  "reconnectAttempts (setStatus st t) = reconnectAttempts t"
  "config (setStatus st t) = config t" "reconnectTimer (setStatus st t) = reconnectTimer t"
  by (simp_all add: setStatus_def)

lemma clearReconnectTimer_frame:
  "ws (clearReconnectTimer t) = ws t" "sockets (clearReconnectTimer t) = sockets t"
  "length (timeouts (clearReconnectTimer t)) = length (timeouts t)"
  "map fst (timeouts (clearReconnectTimer t)) = map fst (timeouts t)"
  "status (clearReconnectTimer t) = status t"
  "reconnectAttempts (clearReconnectTimer t) = reconnectAttempts t"
  "config (clearReconnectTimer t) = config t"
  by (simp_all add: clearReconnectTimer_def cancelTimer_facts split: option.splits)

lemma scheduleReconnect_frame:
  "ws (scheduleReconnect t) = ws t" "sockets (scheduleReconnect t) = sockets t"
  "timeouts (scheduleReconnect t)
     = timeouts (clearReconnectTimer t)
       @ [(min (baseDelay (config t) * 2 ^ reconnectAttempts t) (maxDelay (config t)), True)]"
  "status (scheduleReconnect t) = status t"
  "reconnectAttempts (scheduleReconnect t) = reconnectAttempts t"
  "config (scheduleReconnect t) = config t"
  by (simp_all add: scheduleReconnect_def Let_def clearReconnectTimer_frame)

lemma setReadyState_frame:
  "ws (setReadyState k r t) = ws t" "length (sockets (setReadyState k r t)) = length (sockets t)"
  "timeouts (setReadyState k r t) = timeouts t" "status (setReadyState k r t) = status t"
  "reconnectAttempts (setReadyState k r t) = reconnectAttempts t"
  "config (setReadyState k r t) = config t"
  "reconnectTimer (setReadyState k r t) = reconnectTimer t"
  by (simp_all add: setReadyState_def)

lemma timeouts_clearReconnectTimer_cong:
  "reconnectTimer t' = reconnectTimer t \<Longrightarrow> timeouts t' = timeouts t \<Longrightarrow>
   timeouts (clearReconnectTimer t') = timeouts (clearReconnectTimer t)"
  by (simp add: clearReconnectTimer_def split: option.splits)

lemma unclean_close_schedules:
  assumes a: "awaitingSocket s h n t" and more: "int n < maxAttempts (config t)"
  shows "status (happen (SocketClose s False) t) = Reconnecting"
    and "timeouts (happen (SocketClose s False) t)
          = timeouts (clearReconnectTimer t)
            @ [(min (baseDelay (config t) * 2 ^ n) (maxDelay (config t)), True)]"
    and "ws (happen (SocketClose s False) t) = Some s"
    and "length (sockets (happen (SocketClose s False) t)) = Suc s"
    and "reconnectAttempts (happen (SocketClose s False) t) = n"
    and "config (happen (SocketClose s False) t) = config t"
proof -
  let ?u = "stopHeartbeat (setReadyState s CLOSED t)"
  let ?v = "setStatus Reconnecting ?u"
  note frame = setStatus_frame stopHeartbeat_frame setReadyState_frame
  from a have en: "s < length (sockets t) \<and> readyState (sockets t ! s) \<noteq> CLOSED"
    by (simp add: awaitingSocket_def)
  then have h: "happen (SocketClose s False) t = handleDisconnect ?u"
    by (simp add: happen.simps onclose_def Let_def)
  from a more have "handleDisconnect ?u = scheduleReconnect ?v"
    by (simp add: handleDisconnect_def awaitingSocket_def frame)
  with h have hv: "happen (SocketClose s False) t = scheduleReconnect ?v"
    by simp
  have ct: "timeouts (clearReconnectTimer ?v) = timeouts (clearReconnectTimer t)"
    by (rule timeouts_clearReconnectTimer_cong) (simp_all add: frame)
  have att: "reconnectAttempts ?v = n" and cfg: "config ?v = config t"
    and w: "ws ?v = Some s" and len: "length (sockets ?v) = Suc s"
    using a by (simp_all add: awaitingSocket_def frame)
  show "status (happen (SocketClose s False) t) = Reconnecting"
    by (simp only: hv scheduleReconnect_frame(4) setStatus_frame(4))
  show "timeouts (happen (SocketClose s False) t)
          = timeouts (clearReconnectTimer t)
            @ [(min (baseDelay (config t) * 2 ^ n) (maxDelay (config t)), True)]"
    by (simp only: hv scheduleReconnect_frame(3) ct att cfg)
  show "ws (happen (SocketClose s False) t) = Some s"
    by (simp only: hv scheduleReconnect_frame(1) w)
  show "length (sockets (happen (SocketClose s False) t)) = Suc s"
    by (simp only: hv scheduleReconnect_frame(2) len)
  show "reconnectAttempts (happen (SocketClose s False) t) = n"
    by (simp only: hv scheduleReconnect_frame(5) att)
  show "config (happen (SocketClose s False) t) = config t"
    by (simp only: hv scheduleReconnect_frame(6) cfg)
qed

lemma connect_creates_socket:
  assumes "status t \<noteq> Connected" "status t \<noteq> Connecting"
  shows "ws (snd (connect True t)) = Some (length (sockets t))"
    and "length (sockets (snd (connect True t))) = Suc (length (sockets t))"
    and "readyState (sockets (snd (connect True t)) ! length (sockets t)) = CONNECTING"
    and "status (snd (connect True t)) = Connecting"
    and "timeouts (snd (connect True t)) = timeouts t"
    and "reconnectAttempts (snd (connect True t)) = reconnectAttempts t"
    and "config (snd (connect True t)) = config t"
  using assms by (simp_all add: connect_def Let_def setStatus_frame)

lemma retry_timer_fires:
  assumes st: "status t = Reconnecting"
    and ts: "timeouts t = old @ [(d, True)]" "length old = h"
    and w: "ws t = Some s" "length (sockets t) = Suc s"
    and att: "reconnectAttempts t = n"
    and en: "enabled (config t)"
  shows "awaitingSocket (Suc s) (Suc h) (Suc n) (happen (TimeoutFires h True) t)"
    and "map fst (timeouts (happen (TimeoutFires h True) t)) = map fst (timeouts t)"
    and "config (happen (TimeoutFires h True) t) = config t"
proof -
  let ?v = "t\<lparr>timeouts := cancelTimer h (timeouts t), reconnectAttempts := Suc n\<rparr>"
  from ts have pending: "h < length (timeouts t) \<and> snd (timeouts t ! h)"
    by (simp add: nth_append)
  then have f: "happen (TimeoutFires h True) t = snd (connect True ?v)"
    by (simp add: happen.simps reconnectCallback_def att)
  from st have "status ?v \<noteq> Connected" "status ?v \<noteq> Connecting"
    by simp_all
  note c = connect_creates_socket [OF this]
  from w have len: "length (sockets ?v) = Suc s"
    by simp
  from ts have tl: "length (timeouts ?v) = Suc h"
    by (simp add: cancelTimer_facts)
  have "awaitingSocket (Suc s) (Suc h) (Suc n) (snd (connect True ?v))"
    unfolding awaitingSocket_def
    using c len tl en by simp
  then show "awaitingSocket (Suc s) (Suc h) (Suc n) (happen (TimeoutFires h True) t)"
    by (simp only: f)
  have "map fst (timeouts (snd (connect True ?v))) = map fst (timeouts t)"
    by (simp add: c(5) cancelTimer_facts)
  then show "map fst (timeouts (happen (TimeoutFires h True) t)) = map fst (timeouts t)"
    by (simp only: f)
  have "config (snd (connect True ?v)) = config t"
    by (simp add: c(7))
  then show "config (happen (TimeoutFires h True) t) = config t"
    by (simp only: f)
qed

lemma failed_attempt_round:
  assumes a: "awaitingSocket s h n t" and more: "int n < maxAttempts (config t)"
  shows "awaitingSocket (Suc s) (Suc h) (Suc n)
           (happen (TimeoutFires h True) (happen (SocketClose s False) t))"
    and "map fst (timeouts (happen (TimeoutFires h True) (happen (SocketClose s False) t)))
          = map fst (timeouts t) @ [min (baseDelay (config t) * 2 ^ n) (maxDelay (config t))]"
    and "config (happen (TimeoutFires h True) (happen (SocketClose s False) t)) = config t"
proof -
  let ?t1 = "happen (SocketClose s False) t"
  note c = unclean_close_schedules [OF a more]
  from a have len: "length (timeouts (clearReconnectTimer t)) = h"
    by (simp add: awaitingSocket_def clearReconnectTimer_frame)
  from a have "enabled (config t)"
    by (simp add: awaitingSocket_def)
  then have en: "enabled (config ?t1)"
    by (simp only: c(6))
  note f = retry_timer_fires [OF c(1) c(2) len c(3) c(4) c(5) en]
  from f(1) show "awaitingSocket (Suc s) (Suc h) (Suc n) (happen (TimeoutFires h True) ?t1)" .
  from f(2) show "map fst (timeouts (happen (TimeoutFires h True) ?t1))
          = map fst (timeouts t) @ [min (baseDelay (config t) * 2 ^ n) (maxDelay (config t))]"
    by (simp add: c(2) clearReconnectTimer_frame)
  from f(3) show "config (happen (TimeoutFires h True) ?t1) = config t"
    by (simp add: c(6))
qed

lemma failed_attempts_run:
  "awaitingSocket s h n t \<Longrightarrow> int (n + k) \<le> maxAttempts (config t) \<Longrightarrow>
   awaitingSocket (s + k) (h + k) (n + k) (happenAll (failedAttempts s h k) t)
   \<and> map fst (timeouts (happenAll (failedAttempts s h k) t))
       = map fst (timeouts t)
         @ map (\<lambda>i. min (baseDelay (config t) * 2 ^ i) (maxDelay (config t))) [n ..< n + k]
   \<and> config (happenAll (failedAttempts s h k) t) = config t"
proof (induction k arbitrary: s h n t)
  case 0
  then show ?case by (simp add: happenAll_def)
next
  case (Suc k)
  let ?t2 = "happen (TimeoutFires h True) (happen (SocketClose s False) t)"
  from Suc.prems(2) have more: "int n < maxAttempts (config t)"
    by simp
  note r = failed_attempt_round [OF Suc.prems(1) more]
  from Suc.prems(2) r(3) have le: "int (Suc n + k) \<le> maxAttempts (config ?t2)"
    by simp
  note ih = Suc.IH [OF r(1) le]
  have run: "happenAll (failedAttempts s h (Suc k)) t
             = happenAll (failedAttempts (Suc s) (Suc h) k) ?t2"
    by (simp add: happenAll_def)
  have idx: "[n ..< n + Suc k] = n # [Suc n ..< Suc n + k]"
    by (simp add: upt_conv_Cons)
  from ih show ?case
    by (simp only: run idx r(2) r(3)) simp
qed

text \<open>
  C2. \<open>scheduleReconnect\<close> sets one timeout whose delay is
  \<open>min (baseDelay * 2 ^ reconnectAttempts) maxDelay\<close>, read from the counter as it stands
  (scheduling does not change it); the timeout's callback increments the counter first and
  calls \<open>connect()\<close> on the incremented state. So in a run of \<open>k\<close> failed attempts that
  starts with the counter at 0 and stays within \<open>maxAttempts\<close>, the delays of the timeouts
  set are \<open>min (baseDelay * 2 ^ i) maxDelay\<close> for \<open>i = 0, ..., k - 1\<close>, and the counter
  ends at \<open>k\<close>. A transport built without reconnect options has \<open>baseDelay = 1000\<close>,
  \<open>maxDelay = 30000\<close> and \<open>maxAttempts = 10\<close>.
\<close>

theorem reconnect_backoff_delay:
  "timeouts (scheduleReconnect t)
     = timeouts (clearReconnectTimer t)
       @ [(min (baseDelay (config t) * 2 ^ reconnectAttempts t) (maxDelay (config t)), True)]
   \<and> reconnectTimer (scheduleReconnect t) = Some (length (timeouts t))
   \<and> reconnectAttempts (scheduleReconnect t) = reconnectAttempts t
   \<and> reconnectCallback ok t
       = snd (connect ok (t\<lparr>reconnectAttempts := Suc (reconnectAttempts t)\<rparr>))
   \<and> reconnectAttempts (reconnectCallback ok t) = Suc (reconnectAttempts t)
   \<and> (awaitingSocket s h 0 t0 \<and> int k \<le> maxAttempts (config t0) \<longrightarrow>
        map fst (drop h (timeouts (happenAll (failedAttempts s h k) t0)))
          = map (\<lambda>i. min (baseDelay (config t0) * 2 ^ i) (maxDelay (config t0))) [0 ..< k]
        \<and> reconnectAttempts (happenAll (failedAttempts s h k) t0) = k)
   \<and> baseDelay (config (createWebSocketTransport
         \<lparr>opt_url = u, opt_reconnect = None, opt_heartbeatInterval = hb, opt_authToken = tok\<rparr>))
       = 1000
   \<and> maxDelay (config (createWebSocketTransport
         \<lparr>opt_url = u, opt_reconnect = None, opt_heartbeatInterval = hb, opt_authToken = tok\<rparr>))
       = 30000
   \<and> maxAttempts (config (createWebSocketTransport
         \<lparr>opt_url = u, opt_reconnect = None, opt_heartbeatInterval = hb, opt_authToken = tok\<rparr>))
       = 10"
proof -
  have a: "timeouts (scheduleReconnect t)
     = timeouts (clearReconnectTimer t)
       @ [(min (baseDelay (config t) * 2 ^ reconnectAttempts t) (maxDelay (config t)), True)]"
    by (rule scheduleReconnect_frame(3))
  have b: "reconnectTimer (scheduleReconnect t) = Some (length (timeouts t))"
    by (simp add: scheduleReconnect_def Let_def timeouts_clearReconnectTimer_length)
  have c: "reconnectAttempts (scheduleReconnect t) = reconnectAttempts t"
    by (rule scheduleReconnect_frame(5))
  have d: "reconnectCallback ok t
       = snd (connect ok (t\<lparr>reconnectAttempts := Suc (reconnectAttempts t)\<rparr>))"
    by (simp add: reconnectCallback_def)
  have e: "reconnectAttempts (reconnectCallback ok t) = Suc (reconnectAttempts t)"
    by (simp add: reconnectCallback_def connect_def setStatus_def Let_def)
  have f: "baseDelay (config (createWebSocketTransport
         \<lparr>opt_url = u, opt_reconnect = None, opt_heartbeatInterval = hb, opt_authToken = tok\<rparr>))
       = 1000"
    "maxDelay (config (createWebSocketTransport
         \<lparr>opt_url = u, opt_reconnect = None, opt_heartbeatInterval = hb, opt_authToken = tok\<rparr>))
       = 30000"
    "maxAttempts (config (createWebSocketTransport
         \<lparr>opt_url = u, opt_reconnect = None, opt_heartbeatInterval = hb, opt_authToken = tok\<rparr>))
       = 10"
    by (simp_all add: createWebSocketTransport_def orDefault_def reconnectOption_def)
  have g: "map fst (drop h (timeouts (happenAll (failedAttempts s h k) t0)))
          = map (\<lambda>i. min (baseDelay (config t0) * 2 ^ i) (maxDelay (config t0))) [0 ..< k]
        \<and> reconnectAttempts (happenAll (failedAttempts s h k) t0) = k"
    if start: "awaitingSocket s h 0 t0" and budget: "int k \<le> maxAttempts (config t0)"
  proof -
    let ?t' = "happenAll (failedAttempts s h k) t0"
    from budget have "int (0 + k) \<le> maxAttempts (config t0)"
      by simp
    from failed_attempts_run [OF start this]
    have run: "awaitingSocket (s + k) (h + k) (0 + k) ?t'"
      "map fst (timeouts ?t') = map fst (timeouts t0)
         @ map (\<lambda>i. min (baseDelay (config t0) * 2 ^ i) (maxDelay (config t0))) [0 ..< 0 + k]"
      by blast+
    from start have "length (map fst (timeouts t0)) = h"
      by (simp add: awaitingSocket_def)
    then have "drop h (map fst (timeouts ?t'))
        = map (\<lambda>i. min (baseDelay (config t0) * 2 ^ i) (maxDelay (config t0))) [0 ..< k]"
      by (simp add: run(2))
    moreover from run(1) have "reconnectAttempts ?t' = k"
      by (simp add: awaitingSocket_def)
    ultimately show ?thesis
      by (simp add: drop_map)
  qed
  from a b c d e f g show ?thesis
    by blast
qed

theorem reconnect_backoff_delay_witness:
  "awaitingSocket 0 0 0 connectedTransport
   \<and> int 2 \<le> maxAttempts (config connectedTransport)
   \<and> baseDelay (config connectedTransport) = 1000
   \<and> maxDelay (config connectedTransport) = 30000
   \<and> map fst (drop 0 (timeouts (happenAll (failedAttempts 0 0 2) connectedTransport)))
       = map (\<lambda>i. min (baseDelay (config connectedTransport) * 2 ^ i)
                       (maxDelay (config connectedTransport))) [0 ..< 2]
   \<and> reconnectAttempts (happenAll (failedAttempts 0 0 2) connectedTransport) = 2"
proof -
  have start: "awaitingSocket 0 0 0 connectedTransport"
    by (simp add: awaitingSocket_def connectedTransport_def transport_defs)
  have budget: "int 2 \<le> maxAttempts (config connectedTransport)"
    by (simp add: connectedTransport_def transport_defs)
  have cfg: "baseDelay (config connectedTransport) = 1000"
    "maxDelay (config connectedTransport) = 30000"
    by (simp_all add: connectedTransport_def transport_defs)
  from reconnect_backoff_delay [where s = 0 and h = 0 and k = 2 and ?t0.0 = connectedTransport]
    start budget cfg
  show ?thesis
    by blast
qed

lemma demo_backoff_delays:
  "map fst (timeouts (happenAll (failedAttempts 0 0 2) connectedTransport)) = [1000, 2000]"
  by (simp add: connectedTransport_def transport_defs numeral_2_eq_2)

end
